theory Spec2Isabelle
  imports Complex_Main "HOL-Library.Multiset"
begin

section \<open>JavaScript numbers\<close>

text \<open>
  Every \<open>number\<close> of the program is an IEEE-754 binary64 value. A finite value is
  kept as the rational it denotes; the two infinities and NaN are constructors of their
  own. The sign of zero is not represented: the program compares zeros with \<open>></\<close>,
  \<open><\<close> and \<open>!==\<close> only, which do not see it, and every division it performs is
  guarded against a zero divisor or divides by the constant 100.
\<close>

datatype jsnum = Fin rat | PInf | NInf | NaN

text \<open>
  Rounding to nearest, ties to even. \<open>fexp a\<close> is the exponent of the binade of the
  magnitude \<open>a\<close>: the largest \<open>e\<close> in \<open>-1022..1023\<close> with \<open>2^e \<le> a\<close>, and
  \<open>-1022\<close> for the subnormal range. The spacing of representable values there is
  \<open>2^(e - 52)\<close>; a result of magnitude \<open>2^1024\<close> or more overflows to an infinity.
\<close>

primrec fexp_from :: "nat \<Rightarrow> rat \<Rightarrow> int" where
  "fexp_from 0 a = - 1022"
| "fexp_from (Suc k) a =
     (if 2 powi (int k - 1021) \<le> a then int k - 1021 else fexp_from k a)"

definition fexp :: "rat \<Rightarrow> int" where
  "fexp a = fexp_from 2045 a"

definition rne :: "rat \<Rightarrow> int" where
  "rne q = (let f = \<lfloor>q\<rfloor>; r = q - of_int f
            in if r < 1 / 2 then f
               else if 1 / 2 < r then f + 1
               else if even f then f else f + 1)"

definition rnd :: "rat \<Rightarrow> jsnum" where
  "rnd x = (let a = \<bar>x\<bar>; u = 2 powi (fexp a - 52); r = of_int (rne (a / u)) * u
            in if 2 powi 1024 \<le> r then (if 0 < x then PInf else NInf)
               else Fin (if 0 \<le> x then r else - r))"

fun js_neg :: "jsnum \<Rightarrow> jsnum" where
  "js_neg (Fin a) = Fin (- a)"
| "js_neg PInf = NInf"
| "js_neg NInf = PInf"
| "js_neg NaN = NaN"

fun js_abs :: "jsnum \<Rightarrow> jsnum" where
  "js_abs (Fin a) = Fin \<bar>a\<bar>"
| "js_abs PInf = PInf"
| "js_abs NInf = PInf"
| "js_abs NaN = NaN"

fun js_add :: "jsnum \<Rightarrow> jsnum \<Rightarrow> jsnum" where
  "js_add (Fin a) (Fin b) = rnd (a + b)"
| "js_add NaN y = NaN"
| "js_add x NaN = NaN"
| "js_add PInf NInf = NaN"
| "js_add NInf PInf = NaN"
| "js_add PInf y = PInf"
| "js_add x PInf = PInf"
| "js_add NInf y = NInf"
| "js_add x NInf = NInf"

definition js_sub :: "jsnum \<Rightarrow> jsnum \<Rightarrow> jsnum" where
  "js_sub x y = js_add x (js_neg y)"

fun js_mul :: "jsnum \<Rightarrow> jsnum \<Rightarrow> jsnum" where
  "js_mul (Fin a) (Fin b) = rnd (a * b)"
| "js_mul NaN y = NaN"
| "js_mul x NaN = NaN"
| "js_mul PInf (Fin b) = (if b = 0 then NaN else if 0 < b then PInf else NInf)"
| "js_mul NInf (Fin b) = (if b = 0 then NaN else if 0 < b then NInf else PInf)"
| "js_mul (Fin a) PInf = (if a = 0 then NaN else if 0 < a then PInf else NInf)"
| "js_mul (Fin a) NInf = (if a = 0 then NaN else if 0 < a then NInf else PInf)"
| "js_mul PInf PInf = PInf"
| "js_mul PInf NInf = NInf"
| "js_mul NInf PInf = NInf"
| "js_mul NInf NInf = PInf"

text \<open>
  A zero divisor is taken as the positive zero. The program never reaches these cases.
\<close>

fun js_div :: "jsnum \<Rightarrow> jsnum \<Rightarrow> jsnum" where
  "js_div (Fin a) (Fin b) =
     (if b = 0 then (if a = 0 then NaN else if 0 < a then PInf else NInf)
      else rnd (a / b))"
| "js_div NaN y = NaN"
| "js_div x NaN = NaN"
| "js_div (Fin a) PInf = Fin 0"
| "js_div (Fin a) NInf = Fin 0"
| "js_div PInf (Fin b) = (if 0 \<le> b then PInf else NInf)"
| "js_div NInf (Fin b) = (if 0 \<le> b then NInf else PInf)"
| "js_div PInf PInf = NaN"
| "js_div PInf NInf = NaN"
| "js_div NInf PInf = NaN"
| "js_div NInf NInf = NaN"

fun js_lt :: "jsnum \<Rightarrow> jsnum \<Rightarrow> bool" where
  "js_lt (Fin a) (Fin b) = (a < b)"
| "js_lt NaN y = False"
| "js_lt x NaN = False"
| "js_lt NInf NInf = False"
| "js_lt NInf y = True"
| "js_lt x PInf = (x \<noteq> PInf)"
| "js_lt x NInf = False"
| "js_lt PInf y = False"

definition js_gt :: "jsnum \<Rightarrow> jsnum \<Rightarrow> bool" where
  "js_gt x y = js_lt y x"

text \<open>Strict inequality \<open>!==\<close> on numbers: NaN differs from everything, itself included.\<close>

definition js_sne :: "jsnum \<Rightarrow> jsnum \<Rightarrow> bool" where
  "js_sne x y = (x = NaN \<or> y = NaN \<or> x \<noteq> y)"

fun isFinite :: "jsnum \<Rightarrow> bool" where
  "isFinite (Fin a) = True"
| "isFinite PInf = False"
| "isFinite NInf = False"
| "isFinite NaN = False"

fun isNaN :: "jsnum \<Rightarrow> bool" where
  "isNaN NaN = True"
| "isNaN (Fin a) = False"
| "isNaN PInf = False"
| "isNaN NInf = False"

fun nonneg_num :: "jsnum \<Rightarrow> bool" where
  "nonneg_num (Fin r) = (0 \<le> r)"
| "nonneg_num PInf = True"
| "nonneg_num NInf = False"
| "nonneg_num NaN = False"

subsection \<open>The binade search\<close>

lemma fexp_from_lower: "- 1022 \<le> fexp_from k a"
  by (induction k) auto

lemma fexp_from_le: "fexp_from k a = - 1022 \<or> 2 powi (fexp_from k a) \<le> a"
  by (induction k) auto

lemma fexp_from_gt: "a < 2 powi (int k - 1021) \<Longrightarrow> a < 2 powi (fexp_from k a + 1)"
proof (induction k)
  case 0
  then show ?case by simp
next
  case (Suc k)
  show ?case
  proof (cases "2 powi (int k - 1021) \<le> a")
    case True
    with Suc.prems show ?thesis by (simp add: algebra_simps)
  next
    case False
    then show ?thesis using Suc.IH by simp
  qed
qed

lemma fexp_from_unique:
  assumes "2 powi e \<le> a" "a < 2 powi (e + 1)" "- 1022 \<le> e" "e \<le> int k - 1022"
  shows "fexp_from k a = e"
  using assms
proof (induction k)
  case 0
  then show ?case by simp
next
  case (Suc k)
  show ?case
  proof (cases "e = int k - 1021")
    case True
    with Suc.prems show ?thesis by simp
  next
    case False
    with Suc.prems have le: "e \<le> int k - 1022" by simp
    then have "e + 1 \<le> int k - 1021" by simp
    then have "(2::rat) powi (e + 1) \<le> 2 powi (int k - 1021)"
      by (intro power_int_increasing) auto
    with Suc.prems have "\<not> 2 powi (int k - 1021) \<le> a" by linarith
    with Suc.IH[OF Suc.prems(1,2,3) le] show ?thesis by simp
  qed
qed

lemma fexp_eqI:
  "2 powi e \<le> a \<Longrightarrow> a < 2 powi (e + 1) \<Longrightarrow> - 1022 \<le> e \<Longrightarrow> e \<le> 1023 \<Longrightarrow> fexp a = e"
  unfolding fexp_def by (rule fexp_from_unique) auto

lemma fexp_small: "a < 2 powi (- 1022) \<Longrightarrow> fexp a = - 1022"
proof -
  assume a: "a < 2 powi (- 1022)"
  have "\<not> 2 powi (fexp_from k a) \<le> a \<or> fexp_from k a = - 1022" for k
  proof (cases "fexp_from k a = - 1022")
    case False
    then have "- 1022 \<le> fexp_from k a" using fexp_from_lower by simp
    then have "(2::rat) powi (- 1022) \<le> 2 powi (fexp_from k a)"
      by (intro power_int_increasing) auto
    with a show ?thesis by linarith
  qed simp
  then show ?thesis unfolding fexp_def using fexp_from_le[of 2045 a] by auto
qed

lemma fexp_bounds:
  assumes "2 powi (- 1022) \<le> a" "a < 2 powi 1024"
  shows "2 powi (fexp a) \<le> a \<and> a < 2 powi (fexp a + 1)"
proof -
  have up: "a < 2 powi (fexp a + 1)"
    unfolding fexp_def using assms(2) by (intro fexp_from_gt) simp
  have "fexp a = - 1022 \<or> 2 powi (fexp a) \<le> a"
    unfolding fexp_def by (rule fexp_from_le)
  with assms(1) have "2 powi (fexp a) \<le> a" by auto
  with up show ?thesis by simp
qed

subsection \<open>Rounding: sign, and the values it leaves unchanged\<close>

lemma rne_of_int: "rne (of_int n) = n"
  by (simp add: rne_def)

lemma rne_zero: "rne 0 = 0"
  by (simp add: rne_def)

lemma rne_nonneg: "0 \<le> q \<Longrightarrow> 0 \<le> rne q"
  by (simp add: rne_def Let_def)

lemma rne_int_mult: "rne (of_int m * 2 ^ n) = m * 2 ^ n"
proof -
  have "(of_int m * 2 ^ n :: rat) = of_int (m * 2 ^ n)" by simp
  then show ?thesis by (simp only: rne_of_int)
qed

lemma rnd_nonneg: "0 \<le> x \<Longrightarrow> nonneg_num (rnd x)"
proof (cases "x = 0")
  case True
  have "\<not> (2::rat) powi 1024 \<le> 0" by (simp add: not_le)
  then show ?thesis by (simp add: True rnd_def Let_def rne_zero del: power_int_numeral)
next
  case False
  assume "0 \<le> x"
  with False have "0 < x" by simp
  then show ?thesis by (simp add: rnd_def Let_def rne_nonneg)
qed

lemma rnd_abs_exact:
  assumes a: "a = of_int m * 2 powi k" and m: "0 \<le> m" "m \<le> 2 ^ 53"
    and k: "- 1074 \<le> k" "k \<le> 970"
  shows "of_int (rne (a / 2 powi (fexp a - 52))) * 2 powi (fexp a - 52) = a"
proof (cases "a < 2 powi (- 1022)")
  case True
  then have e: "fexp a = - 1022" by (rule fexp_small)
  have "a / 2 powi (- 1074) = of_int m * 2 powi (k + 1074)"
    by (simp add: a power_int_add power_int_minus field_simps)
  also have "\<dots> = of_int m * 2 ^ nat (k + 1074)"
    using k by (simp add: power_int_def)
  finally have "rne (a / 2 powi (- 1074)) = m * 2 ^ nat (k + 1074)"
    by (simp only: rne_int_mult)
  then have "of_int (rne (a / 2 powi (- 1074))) * 2 powi (- 1074) =
      (of_int m * 2 ^ nat (k + 1074)) * 2 powi (- 1074 :: int)"
    by simp
  also have "(2::rat) ^ nat (k + 1074) = 2 powi (k + 1074)"
    using k by (simp add: power_int_def)
  also have "(of_int m * 2 powi (k + 1074)) * 2 powi (- 1074 :: int) = a"
    by (simp add: a power_int_add power_int_minus field_simps)
  finally show ?thesis using e by simp
next
  case False
  have "(of_int m :: rat) \<le> 2 ^ 53"
    using m by (metis of_int_le_iff of_int_numeral of_int_power)
  then have "a \<le> 2 ^ 53 * 2 powi k"
    unfolding a by (intro mult_right_mono) auto
  also have "\<dots> = 2 powi (53 + k)"
    by (simp add: power_int_add)
  finally have ale: "a \<le> 2 powi (53 + k)" .
  have "(2::rat) powi (53 + k) < 2 powi 1024"
    using k by (intro power_int_strict_increasing) auto
  with ale have alt: "a < 2 powi 1024" by linarith
  from False alt have b: "2 powi (fexp a) \<le> a" "a < 2 powi (fexp a + 1)"
    using fexp_bounds[of a] by auto
  define e where "e = fexp a"
  have "(2::rat) powi e \<le> 2 powi (53 + k)" using b(1) ale unfolding e_def by linarith
  then have ele: "e \<le> 53 + k"
    using power_int_strict_increasing[of "53 + k" e "2::rat"] by (cases "e \<le> 53 + k") auto
  show ?thesis
  proof (cases "e = 53 + k")
    case True
    with b(1) ale have aeq: "a = 2 powi (53 + k)" unfolding e_def by simp
    have "a / 2 powi (e - 52) = 2 ^ 52"
      unfolding aeq True by (simp add: power_int_diff power_int_add)
    also have "\<dots> = of_int (2 ^ 52)" by simp
    finally have "rne (a / 2 powi (e - 52)) = 2 ^ 52" by (simp only: rne_of_int)
    then have "of_int (rne (a / 2 powi (e - 52))) * 2 powi (e - 52) = 2 ^ 52 * 2 powi (1 + k)"
      unfolding True by simp
    also have "\<dots> = a" unfolding aeq by (simp add: power_int_add)
    finally show ?thesis unfolding e_def .
  next
    case False
    with ele have d: "0 \<le> k - e + 52" by simp
    have "a / 2 powi (e - 52) = of_int m * 2 powi (k - e + 52)"
      unfolding a by (simp add: power_int_diff power_int_add field_simps)
    also have "\<dots> = of_int m * 2 ^ nat (k - e + 52)"
      using d by (simp add: power_int_def)
    finally have "rne (a / 2 powi (e - 52)) = m * 2 ^ nat (k - e + 52)"
      by (simp only: rne_int_mult)
    then have "of_int (rne (a / 2 powi (e - 52))) * 2 powi (e - 52) =
        (of_int m * 2 ^ nat (k - e + 52)) * 2 powi (e - 52)"
      by simp
    also have "(2::rat) ^ nat (k - e + 52) = 2 powi (k - e + 52)"
      using d by (simp add: power_int_def)
    also have "(of_int m * 2 powi (k - e + 52)) * 2 powi (e - 52) = a"
      unfolding a by (simp add: power_int_diff power_int_add field_simps)
    finally show ?thesis unfolding e_def .
  qed
qed

lemma rnd_dyadic:
  assumes m: "\<bar>m\<bar> \<le> 2 ^ 53" and k: "- 1074 \<le> k" "k \<le> 970"
  shows "rnd (of_int m * 2 powi k) = Fin (of_int m * 2 powi k)"
proof -
  define x :: rat where "x = of_int m * 2 powi k"
  have ax: "\<bar>x\<bar> = of_int \<bar>m\<bar> * 2 powi k"
    by (simp add: x_def abs_mult)
  have m': "0 \<le> \<bar>m\<bar>" by simp
  have r: "of_int (rne (\<bar>x\<bar> / 2 powi (fexp \<bar>x\<bar> - 52))) * 2 powi (fexp \<bar>x\<bar> - 52) = \<bar>x\<bar>"
    by (rule rnd_abs_exact[OF ax m' m k])
  have "(of_int \<bar>m\<bar> :: rat) \<le> 2 ^ 53"
    using m by (metis of_int_le_iff of_int_numeral of_int_power)
  then have "\<bar>x\<bar> \<le> 2 ^ 53 * 2 powi k"
    unfolding ax by (intro mult_right_mono) auto
  also have "\<dots> = 2 powi (53 + k)"
    by (simp add: power_int_add)
  also have "\<dots> < 2 powi 1024"
    using k by (intro power_int_strict_increasing) auto
  finally have fin: "\<not> 2 powi 1024 \<le> \<bar>x\<bar>" by simp
  have "rnd x = Fin (if 0 \<le> x then \<bar>x\<bar> else - \<bar>x\<bar>)"
    unfolding rnd_def Let_def r using fin by (simp only: if_False)
  also have "(if 0 \<le> x then \<bar>x\<bar> else - \<bar>x\<bar>) = x" by simp
  finally show ?thesis unfolding x_def .
qed

text \<open>Integers up to \<open>2^53\<close> in magnitude are representable: rounding returns them.\<close>

lemma rnd_int_exact:
  assumes "x \<in> \<int>" "\<bar>x\<bar> \<le> 2 ^ 53"
  shows "rnd x = Fin x"
proof -
  from assms(1) obtain m where x: "x = of_int m" by (auto elim: Ints_cases)
  with assms(2) have "(of_int \<bar>m\<bar> :: rat) \<le> of_int (2 ^ 53)" by simp
  then have "\<bar>m\<bar> \<le> 2 ^ 53" by (simp only: of_int_le_iff)
  then have "rnd (of_int m * 2 powi 0) = Fin (of_int m * 2 powi 0)"
    by (rule rnd_dyadic) simp_all
  then show ?thesis by (simp add: x)
qed

lemma js_add_nonneg: "nonneg_num x \<Longrightarrow> nonneg_num y \<Longrightarrow> nonneg_num (js_add x y)"
  by (cases x; cases y) (simp_all add: rnd_nonneg)

lemma js_gt_zero_nonneg: "js_gt y (Fin 0) \<Longrightarrow> nonneg_num y"
  by (cases y) (simp_all add: js_gt_def)

lemma js_lt_zero_abs_nonneg: "js_lt y (Fin 0) \<Longrightarrow> nonneg_num (js_abs y)"
  by (cases y) simp_all

lemma nonneg_num_cases: "nonneg_num g \<Longrightarrow> js_gt g (Fin 0) \<or> g = Fin 0"
  by (cases g) (auto simp: js_gt_def)

section \<open>The data model (types.ts)\<close>

text \<open>
  The three string unions and the \<open>Transaction\<close> interface. The fields \<open>id\<close> and
  \<open>note\<close> are written \<open>tx_id\<close> and \<open>tx_note\<close>; \<open>note\<close> is optional. A view is
  OVERVIEW or one of the strategies.
\<close>

datatype StrategyType = DAY_TRADE | SWING | OPTIONS

datatype ViewType = OVERVIEW | View StrategyType

datatype TransactionType = TRADE | DEPOSIT | WITHDRAWAL

record Transaction =
  tx_id :: string
  date :: string
  type :: TransactionType
  strategy :: StrategyType
  amount :: jsnum
  tx_note :: "string option"

section \<open>Dashboard metrics (the \<open>stats\<close> memo of App)\<close>

text \<open>
  The seven local variables of the memo, all starting at 0, and the body of the
  \<open>forEach\<close> over the filtered transactions. \<open>tradeCount++\<close> is the addition of 1 on
  numbers.
\<close>

record totals =
  acc_investedCapital :: jsnum
  acc_netProfit :: jsnum
  acc_tradeCount :: jsnum
  acc_grossProfit :: jsnum
  acc_grossLoss :: jsnum
  acc_winCount :: jsnum
  acc_lossCount :: jsnum

definition stats_init :: totals where
  "stats_init = \<lparr>acc_investedCapital = Fin 0, acc_netProfit = Fin 0, acc_tradeCount = Fin 0,
     acc_grossProfit = Fin 0, acc_grossLoss = Fin 0, acc_winCount = Fin 0,
     acc_lossCount = Fin 0\<rparr>"

definition stats_step :: "totals \<Rightarrow> Transaction \<Rightarrow> totals" where
  "stats_step s t =
     (let s1 = (if type t = DEPOSIT
                then s\<lparr>acc_investedCapital := js_add (acc_investedCapital s) (amount t)\<rparr>
                else s);
          s2 = (if type t = WITHDRAWAL
                then s1\<lparr>acc_investedCapital := js_sub (acc_investedCapital s1) (amount t)\<rparr>
                else s1)
      in if type t = TRADE
         then (let s3 = s2\<lparr>acc_netProfit := js_add (acc_netProfit s2) (amount t),
                            acc_tradeCount := js_add (acc_tradeCount s2) (Fin 1)\<rparr>
               in if js_gt (amount t) (Fin 0)
                  then s3\<lparr>acc_grossProfit := js_add (acc_grossProfit s3) (amount t),
                          acc_winCount := js_add (acc_winCount s3) (Fin 1)\<rparr>
                  else if js_lt (amount t) (Fin 0)
                  then s3\<lparr>acc_grossLoss := js_add (acc_grossLoss s3) (js_abs (amount t)),
                          acc_lossCount := js_add (acc_lossCount s3) (Fin 1)\<rparr>
                  else s3)
         else s2)"

definition stats_loop :: "Transaction list \<Rightarrow> totals" where
  "stats_loop filteredTransactions = foldl stats_step stats_init filteredTransactions"

record metrics =
  investedCapital :: jsnum
  netProfit :: jsnum
  portfolioValue :: jsnum
  roi :: jsnum
  winRate :: jsnum
  tradeCount :: jsnum
  avgWin :: jsnum
  avgLoss :: jsnum
  profitFactor :: jsnum

definition stats_of :: "totals \<Rightarrow> metrics" where
  "stats_of s =
     \<lparr>investedCapital = acc_investedCapital s,
      netProfit = acc_netProfit s,
      portfolioValue = js_add (acc_investedCapital s) (acc_netProfit s),
      roi = (if js_sne (acc_investedCapital s) (Fin 0)
             then js_mul (js_div (acc_netProfit s) (acc_investedCapital s)) (Fin 100)
             else Fin 0),
      winRate = (if js_gt (acc_tradeCount s) (Fin 0)
                 then js_mul (js_div (acc_winCount s) (acc_tradeCount s)) (Fin 100)
                 else Fin 0),
      tradeCount = acc_tradeCount s,
      avgWin = (if js_gt (acc_winCount s) (Fin 0)
                then js_div (acc_grossProfit s) (acc_winCount s) else Fin 0),
      avgLoss = (if js_gt (acc_lossCount s) (Fin 0)
                 then js_div (acc_grossLoss s) (acc_lossCount s) else Fin 0),
      profitFactor = (if js_gt (acc_grossLoss s) (Fin 0)
                      then js_div (acc_grossProfit s) (acc_grossLoss s)
                      else (if js_gt (acc_grossProfit s) (Fin 0) then PInf else Fin 0))\<rparr>"

definition stats :: "Transaction list \<Rightarrow> metrics" where
  "stats filteredTransactions = stats_of (stats_loop filteredTransactions)"

text \<open>A transaction of the given kind and amount, for the concrete runs below.\<close>

definition mk_tx :: "string \<Rightarrow> string \<Rightarrow> TransactionType \<Rightarrow> StrategyType \<Rightarrow> jsnum \<Rightarrow> Transaction" where
  "mk_tx i d ty st a = \<lparr>tx_id = i, date = d, type = ty, strategy = st, amount = a, tx_note = None\<rparr>"

subsection \<open>The gross sums are never negative and never NaN\<close>

lemma stats_step_gross_nonneg:
  assumes "nonneg_num (acc_grossProfit s)" "nonneg_num (acc_grossLoss s)"
  shows "nonneg_num (acc_grossProfit (stats_step s t)) \<and>
         nonneg_num (acc_grossLoss (stats_step s t))"
  using assms
  by (simp add: stats_step_def Let_def js_add_nonneg js_gt_zero_nonneg js_lt_zero_abs_nonneg)

lemma foldl_gross_nonneg:
  "nonneg_num (acc_grossProfit s) \<Longrightarrow> nonneg_num (acc_grossLoss s) \<Longrightarrow>
   nonneg_num (acc_grossProfit (foldl stats_step s txs)) \<and>
   nonneg_num (acc_grossLoss (foldl stats_step s txs))"
proof (induction txs arbitrary: s)
  case Nil
  then show ?case by simp
next
  case (Cons t txs)
  from stats_step_gross_nonneg[OF Cons.prems, of t] show ?case
    by (simp add: Cons.IH)
qed

lemma stats_loop_gross_nonneg:
  "nonneg_num (acc_grossProfit (stats_loop txs)) \<and> nonneg_num (acc_grossLoss (stats_loop txs))"
  unfolding stats_loop_def by (rule foldl_gross_nonneg) (simp_all add: stats_init_def)

lemma stats_loop_snoc: "stats_loop (txs @ [t]) = stats_step (stats_loop txs) t"
  by (simp add: stats_loop_def)

text \<open>
  C2. For every transaction list, \<open>profitFactor\<close> is \<open>grossProfit / grossLoss\<close> when
  \<open>grossLoss > 0\<close>; when \<open>grossLoss\<close> is 0 it is \<open>+Infinity\<close> if \<open>grossProfit > 0\<close>
  and 0 if \<open>grossProfit\<close> is 0. The cases are exhaustive (each gross sum is
  positive or 0), so the value is defined for every list.
\<close>

theorem C2_profitFactor:
  "(js_gt (acc_grossLoss (stats_loop txs)) (Fin 0) \<longrightarrow>
      profitFactor (stats txs) =
        js_div (acc_grossProfit (stats_loop txs)) (acc_grossLoss (stats_loop txs))) \<and>
   (acc_grossLoss (stats_loop txs) = Fin 0 \<and> js_gt (acc_grossProfit (stats_loop txs)) (Fin 0) \<longrightarrow>
      profitFactor (stats txs) = PInf) \<and>
   (acc_grossLoss (stats_loop txs) = Fin 0 \<and> acc_grossProfit (stats_loop txs) = Fin 0 \<longrightarrow>
      profitFactor (stats txs) = Fin 0) \<and>
   (js_gt (acc_grossLoss (stats_loop txs)) (Fin 0) \<or> acc_grossLoss (stats_loop txs) = Fin 0) \<and>
   (js_gt (acc_grossProfit (stats_loop txs)) (Fin 0) \<or> acc_grossProfit (stats_loop txs) = Fin 0)"
proof -
  have gl: "js_gt (acc_grossLoss (stats_loop txs)) (Fin 0) \<or> acc_grossLoss (stats_loop txs) = Fin 0"
    using stats_loop_gross_nonneg[of txs] by (simp add: nonneg_num_cases)
  have gp: "js_gt (acc_grossProfit (stats_loop txs)) (Fin 0) \<or> acc_grossProfit (stats_loop txs) = Fin 0"
    using stats_loop_gross_nonneg[of txs] by (simp add: nonneg_num_cases)
  have eqs: "profitFactor (stats txs) =
      (if js_gt (acc_grossLoss (stats_loop txs)) (Fin 0)
       then js_div (acc_grossProfit (stats_loop txs)) (acc_grossLoss (stats_loop txs))
       else (if js_gt (acc_grossProfit (stats_loop txs)) (Fin 0) then PInf else Fin 0))"
    by (simp add: stats_def stats_of_def)
  show ?thesis
    using gl gp by (auto simp: eqs js_gt_def)
qed

lemmas run_simps = stats_def stats_of_def stats_loop_def stats_step_def stats_init_def mk_tx_def
  Let_def js_gt_def js_sub_def js_sne_def rnd_int_exact

theorem C2_profitFactor_witness:
  "js_gt (acc_grossLoss (stats_loop
      [mk_tx ''a'' ''2024-01-15'' TRADE SWING (Fin 100),
       mk_tx ''b'' ''2024-01-16'' TRADE SWING (Fin (- 50))])) (Fin 0) \<and>
   profitFactor (stats
      [mk_tx ''a'' ''2024-01-15'' TRADE SWING (Fin 100),
       mk_tx ''b'' ''2024-01-16'' TRADE SWING (Fin (- 50))]) = Fin 2 \<and>
   acc_grossLoss (stats_loop [mk_tx ''a'' ''2024-01-15'' TRADE SWING (Fin 100)]) = Fin 0 \<and>
   js_gt (acc_grossProfit (stats_loop [mk_tx ''a'' ''2024-01-15'' TRADE SWING (Fin 100)])) (Fin 0) \<and>
   profitFactor (stats [mk_tx ''a'' ''2024-01-15'' TRADE SWING (Fin 100)]) = PInf \<and>
   acc_grossLoss (stats_loop []) = Fin 0 \<and> acc_grossProfit (stats_loop []) = Fin 0 \<and>
   profitFactor (stats []) = Fin 0"
  using C2_profitFactor[of "[mk_tx ''a'' ''2024-01-15'' TRADE SWING (Fin 100),
       mk_tx ''b'' ''2024-01-16'' TRADE SWING (Fin (- 50))]"]
    C2_profitFactor[of "[mk_tx ''a'' ''2024-01-15'' TRADE SWING (Fin 100)]"]
    C2_profitFactor[of "[]"]
  by (simp add: run_simps)

text \<open>
  C3. A TRADE whose amount is exactly zero, met in any state of the loop (so at any
  position of any list), adds 1 to \<open>tradeCount\<close> and leaves \<open>winCount\<close>,
  \<open>lossCount\<close>, \<open>grossProfit\<close> and \<open>grossLoss\<close> as they were; after a list
  \<open>txs\<close> that state is the one the loop reached on \<open>txs\<close>. The list of that single
  trade gives \<open>tradeCount = 1\<close>, \<open>winCount = 0\<close>, \<open>lossCount = 0\<close>, \<open>winRate = 0\<close>.
\<close>

theorem C3_zero_trade:
  assumes "type t = TRADE" "amount t = Fin 0"
  shows "acc_tradeCount (stats_step s t) = js_add (acc_tradeCount s) (Fin 1) \<and>
         acc_winCount (stats_step s t) = acc_winCount s \<and>
         acc_lossCount (stats_step s t) = acc_lossCount s \<and>
         acc_grossProfit (stats_step s t) = acc_grossProfit s \<and>
         acc_grossLoss (stats_step s t) = acc_grossLoss s \<and>
         stats_loop (txs @ [t]) = stats_step (stats_loop txs) t \<and>
         acc_tradeCount (stats_loop [t]) = Fin 1 \<and>
         tradeCount (stats [t]) = Fin 1 \<and>
         acc_winCount (stats_loop [t]) = Fin 0 \<and>
         acc_lossCount (stats_loop [t]) = Fin 0 \<and>
         winRate (stats [t]) = Fin 0"
proof -
  have step: "stats_step s' t =
      s'\<lparr>acc_netProfit := js_add (acc_netProfit s') (Fin 0),
         acc_tradeCount := js_add (acc_tradeCount s') (Fin 1)\<rparr>" for s'
    using assms by (simp add: stats_step_def Let_def js_gt_def)
  have one: "stats_loop [t] = stats_init\<lparr>acc_netProfit := Fin 0, acc_tradeCount := Fin 1\<rparr>"
    by (simp add: stats_loop_def step stats_init_def rnd_int_exact)
  have rate: "winRate (stats [t]) = Fin 0"
    by (simp add: stats_def stats_of_def one stats_init_def js_gt_def rnd_int_exact)
  have cnt: "tradeCount (stats [t]) = Fin 1"
    by (simp add: stats_def stats_of_def one)
  show ?thesis
    by (simp add: step stats_loop_snoc rate cnt) (simp add: one stats_init_def)
qed

theorem C3_zero_trade_witness:
  "type (mk_tx ''z'' ''2024-03-01'' TRADE OPTIONS (Fin 0)) = TRADE \<and>
   amount (mk_tx ''z'' ''2024-03-01'' TRADE OPTIONS (Fin 0)) = Fin 0 \<and>
   acc_tradeCount (stats_loop
     [mk_tx ''a'' ''2024-01-15'' TRADE SWING (Fin 100),
      mk_tx ''z'' ''2024-03-01'' TRADE OPTIONS (Fin 0)]) = Fin 2 \<and>
   acc_winCount (stats_loop
     [mk_tx ''a'' ''2024-01-15'' TRADE SWING (Fin 100),
      mk_tx ''z'' ''2024-03-01'' TRADE OPTIONS (Fin 0)]) = Fin 1 \<and>
   tradeCount (stats [mk_tx ''z'' ''2024-03-01'' TRADE OPTIONS (Fin 0)]) = Fin 1 \<and>
   winRate (stats [mk_tx ''z'' ''2024-03-01'' TRADE OPTIONS (Fin 0)]) = Fin 0"
proof -
  have t: "type (mk_tx ''z'' ''2024-03-01'' TRADE OPTIONS (Fin 0)) = TRADE"
    and a: "amount (mk_tx ''z'' ''2024-03-01'' TRADE OPTIONS (Fin 0)) = Fin 0"
    by (simp_all add: mk_tx_def)
  have before: "stats_loop [mk_tx ''a'' ''2024-01-15'' TRADE SWING (Fin 100)] =
      stats_init\<lparr>acc_netProfit := Fin 100, acc_tradeCount := Fin 1,
        acc_grossProfit := Fin 100, acc_winCount := Fin 1\<rparr>"
    by (simp add: run_simps)
  from C3_zero_trade[OF t a,
      of "stats_loop [mk_tx ''a'' ''2024-01-15'' TRADE SWING (Fin 100)]"
         "[mk_tx ''a'' ''2024-01-15'' TRADE SWING (Fin 100)]"]
  show ?thesis
    by (simp add: t a before stats_init_def rnd_int_exact)
qed

text \<open>
  C4. For every transaction list the derived outputs are the defining expressions of
  the source: \<open>portfolioValue\<close> is \<open>investedCapital + netProfit\<close>; \<open>roi\<close> is
  \<open>(netProfit / investedCapital) * 100\<close> when \<open>investedCapital !== 0\<close> and 0
  otherwise; \<open>winRate\<close>, \<open>avgWin\<close> and \<open>avgLoss\<close> are 0 when their divisor is not
  positive. No case raises: \<open>stats\<close> is a total function. On the empty list every
  output is 0.
\<close>

theorem C4_derived_outputs:
  "portfolioValue (stats txs) = js_add (investedCapital (stats txs)) (netProfit (stats txs)) \<and>
   (js_sne (investedCapital (stats txs)) (Fin 0) \<longrightarrow>
      roi (stats txs) =
        js_mul (js_div (netProfit (stats txs)) (investedCapital (stats txs))) (Fin 100)) \<and>
   (\<not> js_sne (investedCapital (stats txs)) (Fin 0) \<longrightarrow> roi (stats txs) = Fin 0) \<and>
   (\<not> js_gt (tradeCount (stats txs)) (Fin 0) \<longrightarrow> winRate (stats txs) = Fin 0) \<and>
   (\<not> js_gt (acc_winCount (stats_loop txs)) (Fin 0) \<longrightarrow> avgWin (stats txs) = Fin 0) \<and>
   (\<not> js_gt (acc_lossCount (stats_loop txs)) (Fin 0) \<longrightarrow> avgLoss (stats txs) = Fin 0) \<and>
   stats [] = \<lparr>investedCapital = Fin 0, netProfit = Fin 0, portfolioValue = Fin 0,
     roi = Fin 0, winRate = Fin 0, tradeCount = Fin 0, avgWin = Fin 0, avgLoss = Fin 0,
     profitFactor = Fin 0\<rparr>"
proof -
  have empty: "stats [] = \<lparr>investedCapital = Fin 0, netProfit = Fin 0, portfolioValue = Fin 0,
     roi = Fin 0, winRate = Fin 0, tradeCount = Fin 0, avgWin = Fin 0, avgLoss = Fin 0,
     profitFactor = Fin 0\<rparr>"
    by (simp add: run_simps)
  show ?thesis
    by (simp add: empty) (simp add: stats_def stats_of_def)
qed

theorem C4_derived_outputs_witness:
  "js_sne (investedCapital (stats
      [mk_tx ''d'' ''2024-01-02'' DEPOSIT DAY_TRADE (Fin 1000),
       mk_tx ''w'' ''2024-01-03'' WITHDRAWAL DAY_TRADE (Fin 200),
       mk_tx ''t'' ''2024-01-04'' TRADE DAY_TRADE (Fin 400)])) (Fin 0) \<and>
   stats
      [mk_tx ''d'' ''2024-01-02'' DEPOSIT DAY_TRADE (Fin 1000),
       mk_tx ''w'' ''2024-01-03'' WITHDRAWAL DAY_TRADE (Fin 200),
       mk_tx ''t'' ''2024-01-04'' TRADE DAY_TRADE (Fin 400)] =
     \<lparr>investedCapital = Fin 800, netProfit = Fin 400, portfolioValue = Fin 1200,
      roi = Fin 50, winRate = Fin 100, tradeCount = Fin 1, avgWin = Fin 400,
      avgLoss = Fin 0, profitFactor = PInf\<rparr> \<and>
   \<not> js_sne (investedCapital (stats [mk_tx ''t'' ''2024-01-04'' TRADE DAY_TRADE (Fin 400)])) (Fin 0) \<and>
   roi (stats [mk_tx ''t'' ''2024-01-04'' TRADE DAY_TRADE (Fin 400)]) = Fin 0 \<and>
   \<not> js_gt (tradeCount (stats [mk_tx ''d'' ''2024-01-02'' DEPOSIT DAY_TRADE (Fin 1000)])) (Fin 0) \<and>
   winRate (stats [mk_tx ''d'' ''2024-01-02'' DEPOSIT DAY_TRADE (Fin 1000)]) = Fin 0 \<and>
   avgWin (stats [mk_tx ''d'' ''2024-01-02'' DEPOSIT DAY_TRADE (Fin 1000)]) = Fin 0 \<and>
   avgLoss (stats [mk_tx ''d'' ''2024-01-02'' DEPOSIT DAY_TRADE (Fin 1000)]) = Fin 0"
proof -
  have half: "rnd (1 / 2) = Fin (1 / 2)"
    using rnd_dyadic[of 1 "- 1"] by simp
  show ?thesis
    using C4_derived_outputs[of "[mk_tx ''d'' ''2024-01-02'' DEPOSIT DAY_TRADE (Fin 1000),
       mk_tx ''w'' ''2024-01-03'' WITHDRAWAL DAY_TRADE (Fin 200),
       mk_tx ''t'' ''2024-01-04'' TRADE DAY_TRADE (Fin 400)]"]
      C4_derived_outputs[of "[mk_tx ''t'' ''2024-01-04'' TRADE DAY_TRADE (Fin 400)]"]
      C4_derived_outputs[of "[mk_tx ''d'' ''2024-01-02'' DEPOSIT DAY_TRADE (Fin 1000)]"]
    by (simp add: run_simps half)
qed

section \<open>Per-day statistics (\<open>getDayStats\<close>)\<close>

record DayStats =
  ds_date :: string
  pl :: jsnum
  ds_transactions :: "Transaction list"
  isProfit :: bool
  isLoss :: bool
  hasTrades :: bool

text \<open>
  \<open>getDayStats\<close> closes over the memo \<open>filteredTransactions\<close>, here its first
  argument. \<open>reduce\<close> with the initial value 0 is a left fold.
\<close>

definition getDayStats :: "Transaction list \<Rightarrow> string \<Rightarrow> DayStats" where
  "getDayStats filteredTransactions dateStr =
     (let dayTx = filter (\<lambda>t. date t = dateStr) filteredTransactions;
          p = foldl (\<lambda>sum t. js_add sum (amount t)) (Fin 0)
                (filter (\<lambda>t. type t = TRADE) dayTx)
      in \<lparr>ds_date = dateStr, pl = p, ds_transactions = dayTx,
          isProfit = js_gt p (Fin 0), isLoss = js_lt p (Fin 0),
          hasTrades = list_ex (\<lambda>t. type t = TRADE) dayTx\<rparr>)"

text \<open>The sum of a list of numbers, added from left to right starting at 0.\<close>

definition js_sum :: "jsnum list \<Rightarrow> jsnum" where
  "js_sum xs = foldl js_add (Fin 0) xs"

lemma foldl_amount_map:
  "foldl (\<lambda>sum t. js_add sum (amount t)) z ts = foldl js_add z (map amount ts)"
  by (induction ts arbitrary: z) simp_all

text \<open>
  C5. For every date key and every transaction list, \<open>pl\<close> is the sum of the amounts
  of the TRADE transactions dated with the key, \<open>isProfit\<close> is \<open>pl > 0\<close>, \<open>isLoss\<close>
  is \<open>pl < 0\<close>, and \<open>hasTrades\<close> holds exactly when the list has a TRADE on that
  date, whatever the sign of \<open>pl\<close>. A day with a TRADE whose trades sum to 0 has
  \<open>hasTrades\<close> and neither \<open>isProfit\<close> nor \<open>isLoss\<close>.
\<close>

theorem C5_getDayStats:
  "pl (getDayStats txs k) =
     js_sum (map amount (filter (\<lambda>t. type t = TRADE \<and> date t = k) txs)) \<and>
   isProfit (getDayStats txs k) = js_gt (pl (getDayStats txs k)) (Fin 0) \<and>
   isLoss (getDayStats txs k) = js_lt (pl (getDayStats txs k)) (Fin 0) \<and>
   hasTrades (getDayStats txs k) = (\<exists>t \<in> set txs. type t = TRADE \<and> date t = k) \<and>
   ((\<exists>t \<in> set txs. type t = TRADE \<and> date t = k) \<and> pl (getDayStats txs k) = Fin 0 \<longrightarrow>
      hasTrades (getDayStats txs k) \<and> \<not> isProfit (getDayStats txs k) \<and>
      \<not> isLoss (getDayStats txs k))"
proof -
  have p: "pl (getDayStats txs k) =
      js_sum (map amount (filter (\<lambda>t. type t = TRADE \<and> date t = k) txs))"
    by (simp add: getDayStats_def Let_def js_sum_def foldl_amount_map conj_commute)
  have h: "hasTrades (getDayStats txs k) = (\<exists>t \<in> set txs. type t = TRADE \<and> date t = k)"
    by (auto simp: getDayStats_def Let_def list_ex_iff)
  have s: "isProfit (getDayStats txs k) = js_gt (pl (getDayStats txs k)) (Fin 0)"
    "isLoss (getDayStats txs k) = js_lt (pl (getDayStats txs k)) (Fin 0)"
    by (simp_all add: getDayStats_def Let_def)
  have z: "pl (getDayStats txs k) = Fin 0 \<Longrightarrow>
      \<not> isProfit (getDayStats txs k) \<and> \<not> isLoss (getDayStats txs k)"
    by (simp add: s js_gt_def)
  show ?thesis
    using p h s z by blast
qed

theorem C5_getDayStats_witness:
  "(\<exists>t \<in> set [mk_tx ''a'' ''2024-01-15'' TRADE SWING (Fin 50),
               mk_tx ''b'' ''2024-01-15'' TRADE DAY_TRADE (Fin (- 50)),
               mk_tx ''c'' ''2024-01-15'' DEPOSIT SWING (Fin 900),
               mk_tx ''d'' ''2024-01-16'' TRADE SWING (Fin 70)].
      type t = TRADE \<and> date t = ''2024-01-15'') \<and>
   pl (getDayStats [mk_tx ''a'' ''2024-01-15'' TRADE SWING (Fin 50),
               mk_tx ''b'' ''2024-01-15'' TRADE DAY_TRADE (Fin (- 50)),
               mk_tx ''c'' ''2024-01-15'' DEPOSIT SWING (Fin 900),
               mk_tx ''d'' ''2024-01-16'' TRADE SWING (Fin 70)] ''2024-01-15'') = Fin 0 \<and>
   hasTrades (getDayStats [mk_tx ''a'' ''2024-01-15'' TRADE SWING (Fin 50),
               mk_tx ''b'' ''2024-01-15'' TRADE DAY_TRADE (Fin (- 50)),
               mk_tx ''c'' ''2024-01-15'' DEPOSIT SWING (Fin 900),
               mk_tx ''d'' ''2024-01-16'' TRADE SWING (Fin 70)] ''2024-01-15'') \<and>
   \<not> isProfit (getDayStats [mk_tx ''a'' ''2024-01-15'' TRADE SWING (Fin 50),
               mk_tx ''b'' ''2024-01-15'' TRADE DAY_TRADE (Fin (- 50)),
               mk_tx ''c'' ''2024-01-15'' DEPOSIT SWING (Fin 900),
               mk_tx ''d'' ''2024-01-16'' TRADE SWING (Fin 70)] ''2024-01-15'') \<and>
   \<not> isLoss (getDayStats [mk_tx ''a'' ''2024-01-15'' TRADE SWING (Fin 50),
               mk_tx ''b'' ''2024-01-15'' TRADE DAY_TRADE (Fin (- 50)),
               mk_tx ''c'' ''2024-01-15'' DEPOSIT SWING (Fin 900),
               mk_tx ''d'' ''2024-01-16'' TRADE SWING (Fin 70)] ''2024-01-15'')"
proof -
  have p: "pl (getDayStats [mk_tx ''a'' ''2024-01-15'' TRADE SWING (Fin 50),
               mk_tx ''b'' ''2024-01-15'' TRADE DAY_TRADE (Fin (- 50)),
               mk_tx ''c'' ''2024-01-15'' DEPOSIT SWING (Fin 900),
               mk_tx ''d'' ''2024-01-16'' TRADE SWING (Fin 70)] ''2024-01-15'') = Fin 0"
    by (simp add: getDayStats_def mk_tx_def Let_def rnd_int_exact)
  have e: "\<exists>t \<in> set [mk_tx ''a'' ''2024-01-15'' TRADE SWING (Fin 50),
               mk_tx ''b'' ''2024-01-15'' TRADE DAY_TRADE (Fin (- 50)),
               mk_tx ''c'' ''2024-01-15'' DEPOSIT SWING (Fin 900),
               mk_tx ''d'' ''2024-01-16'' TRADE SWING (Fin 70)].
      type t = TRADE \<and> date t = ''2024-01-15''"
    by (simp add: mk_tx_def)
  from C5_getDayStats[of "[mk_tx ''a'' ''2024-01-15'' TRADE SWING (Fin 50),
               mk_tx ''b'' ''2024-01-15'' TRADE DAY_TRADE (Fin (- 50)),
               mk_tx ''c'' ''2024-01-15'' DEPOSIT SWING (Fin 900),
               mk_tx ''d'' ''2024-01-16'' TRADE SWING (Fin 70)]" "''2024-01-15''"] p e
  show ?thesis by blast
qed

section \<open>Deleting a transaction (\<open>window.deleteTransaction\<close>)\<close>

text \<open>
  The updater passed to \<open>setTransactions\<close>: the new list, which is also what is written
  to local storage. Ids are strings, so \<open>String(id)\<close> is the id itself.
\<close>

definition deleteTransaction :: "string \<Rightarrow> Transaction list \<Rightarrow> Transaction list" where
  "deleteTransaction i prev = (let safeId = i in filter (\<lambda>t. tx_id t \<noteq> safeId) prev)"

text \<open>
  C8. For every transaction list and every id that no transaction of the list has,
  deleting by that id returns the list itself: same length, same contents. The function
  is total, so there is no error case.
\<close>

theorem C8_delete_absent_id:
  "i \<notin> set (map tx_id txs) \<Longrightarrow>
     deleteTransaction i txs = txs \<and> length (deleteTransaction i txs) = length txs"
proof -
  assume "i \<notin> set (map tx_id txs)"
  then have "\<forall>t \<in> set txs. tx_id t \<noteq> i" by auto
  then have "filter (\<lambda>t. tx_id t \<noteq> i) txs = txs" by (simp only: filter_True)
  then show ?thesis by (simp add: deleteTransaction_def)
qed

theorem C8_delete_absent_id_witness:
  "''zz'' \<notin> set (map tx_id [mk_tx ''a'' ''2024-01-15'' TRADE SWING (Fin 50),
                              mk_tx ''b'' ''2024-01-15'' DEPOSIT SWING (Fin 900)]) \<and>
   deleteTransaction ''zz'' [mk_tx ''a'' ''2024-01-15'' TRADE SWING (Fin 50),
                            mk_tx ''b'' ''2024-01-15'' DEPOSIT SWING (Fin 900)] =
     [mk_tx ''a'' ''2024-01-15'' TRADE SWING (Fin 50),
      mk_tx ''b'' ''2024-01-15'' DEPOSIT SWING (Fin 900)] \<and>
   length (deleteTransaction ''zz'' [mk_tx ''a'' ''2024-01-15'' TRADE SWING (Fin 50),
                            mk_tx ''b'' ''2024-01-15'' DEPOSIT SWING (Fin 900)]) = 2"
proof -
  have a: "''zz'' \<notin> set (map tx_id [mk_tx ''a'' ''2024-01-15'' TRADE SWING (Fin 50),
                              mk_tx ''b'' ''2024-01-15'' DEPOSIT SWING (Fin 900)])"
    by (simp add: mk_tx_def)
  from C8_delete_absent_id[OF a] a show ?thesis by simp
qed

section \<open>Percentage formatting (\<open>formatPercentage\<close>)\<close>

text \<open>
  \<open>Intl.NumberFormat\<close> belongs to the platform. It is a parameter of the model: a
  function from the locale and the options to the formatter. The options are the ones
  the source passes.
\<close>

datatype NumberStyle = Percent | Currency string

record NumberFormatOptions =
  style :: NumberStyle
  minimumFractionDigits :: nat
  maximumFractionDigits :: nat

definition formatPercentage ::
    "(string \<Rightarrow> NumberFormatOptions \<Rightarrow> jsnum \<Rightarrow> string) \<Rightarrow> jsnum \<Rightarrow> string" where
  "formatPercentage NumberFormat v =
     (if \<not> isFinite v \<or> isNaN v then ''0.00%''
      else NumberFormat ''en-US''
             \<lparr>style = Percent, minimumFractionDigits = 2, maximumFractionDigits = 2\<rparr>
             (js_div v (Fin 100)))"

text \<open>
  C9. \<open>formatPercentage\<close> returns exactly \<open>0.00%\<close> for NaN and for both infinities,
  whatever the formatter. A finite input is divided by 100 and handed to the en-US
  percent formatter with the minimum and the maximum number of fraction digits both 2.
\<close>

theorem C9_formatPercentage:
  "formatPercentage nf NaN = ''0.00%'' \<and>
   formatPercentage nf PInf = ''0.00%'' \<and>
   formatPercentage nf NInf = ''0.00%'' \<and>
   formatPercentage nf (Fin x) =
     nf ''en-US'' \<lparr>style = Percent, minimumFractionDigits = 2, maximumFractionDigits = 2\<rparr>
       (js_div (Fin x) (Fin 100))"
  by (simp add: formatPercentage_def)

section \<open>Calendar dates (the platform's \<open>Date\<close>)\<close>

text \<open>
  The program reads a \<open>Date\<close> through its local-time getters only, and builds one
  from a local year, month and day. A \<open>Date\<close> is therefore modelled by its local
  calendar fields in the proleptic Gregorian calendar; the time of day plays no part.
  There is no Invalid Date in the model: it covers the dates within the platform's time
  range (all of the years -271820 to 275759). Months are numbered from 0.
\<close>

record Date =
  getFullYear :: int
  getMonth :: int
  getDate :: int

definition is_leap :: "int \<Rightarrow> bool" where
  "is_leap y = (y mod 4 = 0 \<and> (y mod 100 \<noteq> 0 \<or> y mod 400 = 0))"

definition days_in_month :: "int \<Rightarrow> int \<Rightarrow> int" where
  "days_in_month y m =
     (if m = 1 then (if is_leap y then 29 else 28)
      else if m = 3 \<or> m = 5 \<or> m = 8 \<or> m = 10 then 30 else 31)"

definition valid_Date :: "Date \<Rightarrow> bool" where
  "valid_Date d = (0 \<le> getMonth d \<and> getMonth d \<le> 11 \<and> 1 \<le> getDate d \<and>
     getDate d \<le> days_in_month (getFullYear d) (getMonth d))"

text \<open>
  \<open>new Date(y, m, d)\<close>: a year from 0 to 99 stands for 1900 + y; the month may lie
  outside 0..11 and carries into the year; the day counts from day 1 of that month, in
  either direction (day 0 is the last day of the month before).
\<close>

definition next_day :: "Date \<Rightarrow> Date" where
  "next_day d =
     (if getDate d < days_in_month (getFullYear d) (getMonth d)
      then d\<lparr>getDate := getDate d + 1\<rparr>
      else if getMonth d < 11
      then \<lparr>getFullYear = getFullYear d, getMonth = getMonth d + 1, getDate = 1\<rparr>
      else \<lparr>getFullYear = getFullYear d + 1, getMonth = 0, getDate = 1\<rparr>)"



text \<open>
  The day number (days since 1 January 1970) and the weekday, 0 for Sunday, as
  ECMAScript defines them.
\<close>

definition DayFromYear :: "int \<Rightarrow> int" where
  "DayFromYear y = 365 * (y - 1970) + (y - 1969) div 4 - (y - 1901) div 100 + (y - 1601) div 400"

definition Day :: "Date \<Rightarrow> int" where
  "Day d = DayFromYear (getFullYear d) +
     sum_list (map (days_in_month (getFullYear d)) [0..getMonth d - 1]) + getDate d - 1"

definition getDay :: "Date \<Rightarrow> int" where
  "getDay d = (Day d + 4) mod 7"



text \<open>
  \<open>formatDateISO\<close> shifts the time value by the zone offset, so that the UTC fields
  \<open>toISOString\<close> prints are the local fields, and keeps the part before \<open>T\<close>: the
  local date. \<open>toISOString\<close> writes a year from 0 to 9999 with four digits and any
  other year with a sign and six digits.
\<close>

primrec pad_digits :: "nat \<Rightarrow> int \<Rightarrow> string" where
  "pad_digits 0 n = []"
| "pad_digits (Suc w) n = pad_digits w (n div 10) @ [''0123456789'' ! nat (n mod 10)]"



section \<open>The calendar grid (\<open>generateCalendarDays\<close>)\<close>

record CalendarDay =
  day :: "int option"
  dateStr :: "string option"











subsection \<open>The weekday follows the calendar\<close>

text \<open>
  The day number grows by one from each day to the next, across the ends of months and
  years, so the weekday index advances by one modulo 7; 1 January 1970 was a Thursday.
\<close>

lemma div_succ:
  fixes a k :: int
  assumes "0 < k"
  shows "(a + 1) div k = a div k + (if (a + 1) mod k = 0 then 1 else 0)"
proof -
  define q where "q = a div k"
  define r where "r = a mod k"
  have r: "0 \<le> r" "r < k" using assms by (simp_all add: r_def)
  have a: "a = k * q + r" by (simp add: q_def r_def)
  show ?thesis
  proof (cases "r + 1 = k")
    case True
    then have e: "a + 1 = k * (q + 1) + 0" using a by (simp add: algebra_simps)
    have "(a + 1) div k = q + 1" by (rule int_div_pos_eq[OF e]) (use assms in simp_all)
    moreover have "(a + 1) mod k = 0" by (rule int_mod_pos_eq[OF e]) (use assms in simp_all)
    ultimately show ?thesis by (simp add: q_def)
  next
    case False
    with r have r1: "0 \<le> r + 1" "r + 1 < k" by simp_all
    have e: "a + 1 = k * q + (r + 1)" using a by simp
    have "(a + 1) div k = q" by (rule int_div_pos_eq[OF e r1])
    moreover have "(a + 1) mod k = r + 1" by (rule int_mod_pos_eq[OF e r1])
    ultimately show ?thesis using r by (simp add: q_def)
  qed
qed

lemma mod_shift: "(y - c * k) mod k = y mod (k::int)"
  using mod_mult_self1[of y "- c" k] by simp

lemma div_succ_shift:
  fixes y k c :: int
  assumes "0 < k"
  shows "(y + 1 - (c * k + 1)) div k = (y - (c * k + 1)) div k + (if y mod k = 0 then 1 else 0)"
proof -
  have "(y - (c * k + 1) + 1) mod k = (y - c * k) mod k" by simp
  also have "\<dots> = y mod k" by (rule mod_shift)
  finally have m: "(y - (c * k + 1) + 1) mod k = y mod k" .
  have "y + 1 - (c * k + 1) = y - (c * k + 1) + 1" by simp
  then show ?thesis using div_succ[OF assms, of "y - (c * k + 1)"] by (simp only: m)
qed

lemma leap_divisors: "y mod 400 = 0 \<Longrightarrow> y mod 100 = 0" "y mod 100 = 0 \<Longrightarrow> y mod 4 = (0::int)"
proof -
  assume "y mod 400 = 0"
  then have "400 dvd y" by (simp add: mod_eq_0_iff_dvd)
  moreover have "(100::int) dvd 400" by simp
  ultimately have "100 dvd y" by (rule dvd_trans[rotated])
  then show "y mod 100 = 0" by (simp add: mod_eq_0_iff_dvd)
next
  assume "y mod 100 = 0"
  then have "100 dvd y" by (simp add: mod_eq_0_iff_dvd)
  moreover have "(4::int) dvd 100" by simp
  ultimately have "4 dvd y" by (rule dvd_trans[rotated])
  then show "y mod 4 = 0" by (simp add: mod_eq_0_iff_dvd)
qed

lemma DayFromYear_Suc:
  "DayFromYear (y + 1) = DayFromYear y + (if is_leap y then 366 else 365)"
proof -
  have a: "(y + 1 - 1969) div 4 = (y - 1969) div 4 + (if y mod 4 = 0 then 1 else 0)"
    using div_succ_shift[of 4 y 492] by simp
  have b: "(y + 1 - 1901) div 100 = (y - 1901) div 100 + (if y mod 100 = 0 then 1 else 0)"
    using div_succ_shift[of 100 y 19] by simp
  have c: "(y + 1 - 1601) div 400 = (y - 1601) div 400 + (if y mod 400 = 0 then 1 else 0)"
    using div_succ_shift[of 400 y 4] by simp
  have "DayFromYear (y + 1) = 365 * (y + 1 - 1970) + (y + 1 - 1969) div 4 -
      (y + 1 - 1901) div 100 + (y + 1 - 1601) div 400"
    by (simp only: DayFromYear_def)
  also have "\<dots> = DayFromYear y + 365 + (if y mod 4 = 0 then 1 else 0) -
      (if y mod 100 = 0 then 1 else 0) + (if y mod 400 = 0 then 1 else 0)"
    unfolding a b c DayFromYear_def by (simp only: algebra_simps)
  also have "\<dots> = DayFromYear y + (if is_leap y then 366 else 365)"
  proof (cases "y mod 4 = 0")
    case False
    have n100: "y mod 100 \<noteq> 0"
    proof
      assume "y mod 100 = 0"
      then have "y mod 4 = 0" by (rule leap_divisors(2))
      with False show False by (rule notE)
    qed
    have "y mod 400 \<noteq> 0"
    proof
      assume "y mod 400 = 0"
      then have "y mod 100 = 0" by (rule leap_divisors(1))
      with n100 show False by (rule notE)
    qed
    with n100 have "y mod 100 \<noteq> 0 \<and> y mod 400 \<noteq> 0" by (rule conjI)
    with False show ?thesis by (simp only: is_leap_def) simp
  next
    case True
    show ?thesis
    proof (cases "y mod 100 = 0")
      case False
      have "y mod 400 \<noteq> 0"
      proof
        assume "y mod 400 = 0"
        then have "y mod 100 = 0" by (rule leap_divisors(1))
        with False show False by (rule notE)
      qed
      with True False show ?thesis by (simp only: is_leap_def) simp
    next
      case h: True
      show ?thesis
      proof (cases "y mod 400 = 0")
        case True
        with h \<open>y mod 4 = 0\<close> show ?thesis by (simp only: is_leap_def) simp
      next
        case False
        with h \<open>y mod 4 = 0\<close> show ?thesis by (simp only: is_leap_def) simp
      qed
    qed
  qed
  finally show ?thesis .
qed

lemma days_before_month:
  "0 \<le> m \<Longrightarrow> sum_list (map (days_in_month y) [0..m]) =
     sum_list (map (days_in_month y) [0..m - 1]) + days_in_month y m"
  by (simp add: upto_rec2)

lemma days_before_december:
  "sum_list (map (days_in_month y) [0..10]) = (if is_leap y then 335 else 334)"
  by (simp add: upto_rec1 days_in_month_def)

lemma Day_next_day:
  assumes "valid_Date d"
  shows "Day (next_day d) = Day d + 1"
proof -
  from assms have m: "0 \<le> getMonth d" "getMonth d \<le> 11"
    and dd: "1 \<le> getDate d" "getDate d \<le> days_in_month (getFullYear d) (getMonth d)"
    by (simp_all add: valid_Date_def)
  show ?thesis
  proof (cases "getDate d < days_in_month (getFullYear d) (getMonth d)")
    case True
    then show ?thesis by (simp add: next_day_def Day_def)
  next
    case False
    with dd have last: "getDate d = days_in_month (getFullYear d) (getMonth d)" by simp
    show ?thesis
    proof (cases "getMonth d < 11")
      case True
      with False m show ?thesis
        by (simp add: next_day_def Day_def days_before_month last)
    next
      case False
      with m have m11: "getMonth d = 11" by simp
      then have "getDate d = 31" using last by (simp add: days_in_month_def)
      then show ?thesis
        using m11 last
        by (simp add: next_day_def Day_def DayFromYear_Suc days_before_december)
    qed
  qed
qed

lemma getDay_next_day:
  assumes "valid_Date d"
  shows "getDay (next_day d) = (getDay d + 1) mod 7"
proof -
  have "getDay (next_day d) = (Day d + 4 + 1) mod 7"
    by (simp add: getDay_def Day_next_day[OF assms])
  also have "\<dots> = ((Day d + 4) mod 7 + 1) mod 7"
    by (simp only: mod_add_left_eq)
  finally show ?thesis by (simp only: getDay_def)
qed

lemma epoch_is_thursday: "getDay \<lparr>getFullYear = 1970, getMonth = 0, getDate = 1\<rparr> = 4"
  by code_simp





section \<open>Reading numbers and dates from strings\<close>

definition digit_of :: "char \<Rightarrow> nat option" where
  "digit_of c = map_of (zip ''0123456789'' [0, 1, 2, 3, 4, 5, 6, 7, 8, 9]) c"

definition is_digit :: "char \<Rightarrow> bool" where
  "is_digit c = (digit_of c \<noteq> None)"

definition digits_val :: "string \<Rightarrow> int" where
  "digits_val s = foldl (\<lambda>n c. 10 * n + int (the (digit_of c))) 0 s"

text \<open>
  \<open>new Date(s).getTime()\<close> for a date string. The platform's parser is a parameter of
  the functions that sort by date; \<open>Date_getTime\<close> is the instance used to run them. It
  reads the form the program writes, \<open>YYYY-MM-DD\<close> with an existing day, as midnight
  UTC of that day in milliseconds, and takes every other string as an Invalid Date,
  whose time value is NaN (what engines do with other strings varies).
\<close>

definition Date_getTime :: "string \<Rightarrow> jsnum" where
  "Date_getTime s =
     (if length s = 10 \<and> s ! 4 = CHR ''-'' \<and> s ! 7 = CHR ''-'' \<and>
         list_all is_digit (take 4 s) \<and> list_all is_digit (take 2 (drop 5 s)) \<and>
         list_all is_digit (drop 8 s)
      then (let y = digits_val (take 4 s);
                m = digits_val (take 2 (drop 5 s));
                d = digits_val (drop 8 s)
            in if 1 \<le> m \<and> m \<le> 12 \<and> 1 \<le> d \<and> d \<le> days_in_month y (m - 1)
               then Fin (of_int (Day \<lparr>getFullYear = y, getMonth = m - 1, getDate = d\<rparr> * 86400000))
               else NaN)
      else NaN)"

text \<open>
  \<open>parseFloat\<close>: leading white space is dropped, the longest prefix that is a decimal
  literal (optional sign; \<open>Infinity\<close>, or digits with an optional fraction and an
  optional exponent) is read, and its value is rounded to a double. Without such a
  prefix the result is NaN.
\<close>

datatype literal = No_literal | Infinity_literal bool | Decimal_literal rat

definition is_space :: "char \<Rightarrow> bool" where
  "is_space c = (c = CHR '' '' \<or> c = CHR 0x09 \<or> c = CHR 0x0A \<or> c = CHR 0x0B \<or>
     c = CHR 0x0C \<or> c = CHR 0x0D)"

definition strip_sign :: "string \<Rightarrow> bool \<times> string" where
  "strip_sign s =
     (case s of
        [] \<Rightarrow> (False, [])
      | c # r \<Rightarrow> if c = CHR ''-'' then (True, r)
                 else if c = CHR ''+'' then (False, r) else (False, s))"

definition exponent_part :: "string \<Rightarrow> int" where
  "exponent_part s =
     (case s of
        [] \<Rightarrow> 0
      | c # r \<Rightarrow>
          if c = CHR ''e'' \<or> c = CHR ''E''
          then (let ds = takeWhile is_digit (snd (strip_sign r))
                in if ds = [] then 0
                   else if fst (strip_sign r) then - digits_val ds
                   else digits_val ds)
          else 0)"

definition decimal_prefix :: "string \<Rightarrow> literal" where
  "decimal_prefix t =
     (let neg = fst (strip_sign t); s = snd (strip_sign t)
      in if take 8 s = ''Infinity'' then Infinity_literal neg
         else (let ip = takeWhile is_digit s;
                   r1 = dropWhile is_digit s;
                   fp = (case r1 of [] \<Rightarrow> []
                         | c # r \<Rightarrow> if c = CHR ''.'' then takeWhile is_digit r else []);
                   r2 = (case r1 of [] \<Rightarrow> []
                         | c # r \<Rightarrow> if c = CHR ''.'' then dropWhile is_digit r else r1)
               in if ip = [] \<and> fp = [] then No_literal
                  else (let v = (of_int (digits_val ip) +
                                 of_int (digits_val fp) / 10 ^ length fp) *
                                10 powi exponent_part r2
                        in Decimal_literal (if neg then - v else v))))"

definition parseFloat :: "string \<Rightarrow> jsnum" where
  "parseFloat inputString =
     (case decimal_prefix (dropWhile is_space inputString) of
        No_literal \<Rightarrow> NaN
      | Infinity_literal neg \<Rightarrow> (if neg then NInf else PInf)
      | Decimal_literal v \<Rightarrow> rnd v)"

section \<open>The filtered view (\<open>filteredTransactions\<close>)\<close>

text \<open>
  \<open>Array.prototype.sort\<close> with a comparator is stable; the comparator's result is
  compared with 0, NaN counting as 0. It is modelled by insertion, from the right, of
  each element before the first one it does not have to follow.
\<close>

fun insort_cmp :: "('a \<Rightarrow> 'a \<Rightarrow> jsnum) \<Rightarrow> 'a \<Rightarrow> 'a list \<Rightarrow> 'a list" where
  "insort_cmp cmp x [] = [x]"
| "insort_cmp cmp x (y # ys) =
     (if js_gt (cmp x y) (Fin 0) then y # insort_cmp cmp x ys else x # y # ys)"

definition js_sort :: "('a \<Rightarrow> 'a \<Rightarrow> jsnum) \<Rightarrow> 'a list \<Rightarrow> 'a list" where
  "js_sort cmp xs = foldr (insort_cmp cmp) xs []"

definition by_date_desc :: "(string \<Rightarrow> jsnum) \<Rightarrow> Transaction \<Rightarrow> Transaction \<Rightarrow> jsnum" where
  "by_date_desc getTime a b = js_sub (getTime (date b)) (getTime (date a))"

definition filteredTransactions ::
    "(string \<Rightarrow> jsnum) \<Rightarrow> ViewType \<Rightarrow> Transaction list \<Rightarrow> Transaction list" where
  "filteredTransactions getTime currentView transactions =
     (let txs = (case currentView of
                   OVERVIEW \<Rightarrow> transactions
                 | View s \<Rightarrow> filter (\<lambda>t. strategy t = s) transactions)
      in js_sort (by_date_desc getTime) txs)"

lemma mset_insort_cmp: "mset (insort_cmp cmp x ys) = add_mset x (mset ys)"
  by (induction ys) simp_all

lemma mset_js_sort: "mset (js_sort cmp xs) = mset xs"
  by (induction xs) (simp_all add: js_sort_def mset_insort_cmp)

section \<open>The trade form (\<open>TradeModal\<close>) and saving (\<open>handleSaveTransaction\<close>)\<close>

text \<open>
  The form state of the modal, and the value \<open>onSave\<close> receives: a transaction
  without its id.
\<close>

record TradeForm =
  f_type :: TransactionType
  f_strategy :: StrategyType
  f_amount :: string
  f_note :: string

record TxData =
  d_date :: string
  d_type :: TransactionType
  d_strategy :: StrategyType
  d_amount :: jsnum
  d_note :: string

text \<open>
  The amount field is an \<open>input\<close> of \<open>type="number"\<close>. The value such an element
  reports is its text when that is a valid floating-point number of HTML (an optional
  \<open>-\<close>, digits or a fraction or both, an optional exponent) and the empty string
  otherwise. \<open>onChange\<close> stores the reported value in the form state.
\<close>

definition valid_exponent :: "string \<Rightarrow> bool" where
  "valid_exponent s =
     (case s of
        [] \<Rightarrow> True
      | c # r \<Rightarrow> (c = CHR ''e'' \<or> c = CHR ''E'') \<and> snd (strip_sign r) \<noteq> [] \<and>
                 list_all is_digit (snd (strip_sign r)))"

definition valid_floating_point_number :: "string \<Rightarrow> bool" where
  "valid_floating_point_number s =
     (let s1 = (case s of [] \<Rightarrow> [] | c # r \<Rightarrow> if c = CHR ''-'' then r else s);
          ip = takeWhile is_digit s1;
          r1 = dropWhile is_digit s1
      in case r1 of
           [] \<Rightarrow> ip \<noteq> []
         | c # r \<Rightarrow>
             if c = CHR ''.''
             then takeWhile is_digit r \<noteq> [] \<and> valid_exponent (dropWhile is_digit r)
             else ip \<noteq> [] \<and> valid_exponent r1)"

definition number_input_value :: "string \<Rightarrow> string" where
  "number_input_value text_typed = (if valid_floating_point_number text_typed then text_typed else [])"

definition onChange_amount :: "string \<Rightarrow> TradeForm \<Rightarrow> TradeForm" where
  "onChange_amount text_typed form = form\<lparr>f_amount := number_input_value text_typed\<rparr>"

text \<open>
  \<open>handleSubmit\<close> returns what it passes to \<open>onSave\<close>, if it calls it, and the form
  state it leaves. \<open>!amount\<close> holds of the empty string only.
\<close>

definition handleSubmit :: "string \<Rightarrow> TradeForm \<Rightarrow> TxData option \<times> TradeForm" where
  "handleSubmit selectedDate form =
     (if f_amount form = [] then (None, form)
      else (Some \<lparr>d_date = selectedDate, d_type = f_type form, d_strategy = f_strategy form,
                  d_amount = parseFloat (f_amount form), d_note = f_note form\<rparr>,
            form\<lparr>f_amount := [], f_note := []\<rparr>))"

text \<open>The id comes from \<open>generateId\<close>, a random source: here an argument.\<close>

definition handleSaveTransaction :: "string \<Rightarrow> TxData \<Rightarrow> Transaction list \<Rightarrow> Transaction list" where
  "handleSaveTransaction newId txData prev =
     prev @ [\<lparr>tx_id = newId, date = d_date txData, type = d_type txData,
              strategy = d_strategy txData, amount = d_amount txData,
              tx_note = Some (d_note txData)\<rparr>]"

definition submit ::
    "string \<Rightarrow> string \<Rightarrow> TradeForm \<Rightarrow> Transaction list \<Rightarrow> Transaction list \<times> TradeForm" where
  "submit newId selectedDate form transactions =
     (case fst (handleSubmit selectedDate form) of
        None \<Rightarrow> (transactions, snd (handleSubmit selectedDate form))
      | Some txData \<Rightarrow>
          (handleSaveTransaction newId txData transactions, snd (handleSubmit selectedDate form)))"

text \<open>
  The guard of \<open>handleSubmit\<close> is on the empty string alone: any other amount state is
  parsed and saved. A numeric entry is saved with its value.
\<close>

lemma handleSubmit_rejects_iff: "fst (handleSubmit sel form) = None \<longleftrightarrow> f_amount form = []"
  by (simp add: handleSubmit_def)

lemma parseFloat_150: "parseFloat ''150'' = Fin 150"
proof -
  have "decimal_prefix (dropWhile is_space ''150'') = Decimal_literal 150"
    by code_simp
  then show ?thesis by (simp add: parseFloat_def rnd_int_exact)
qed

lemma submit_numeric_entry:
  "submit ''id-2'' ''2024-01-15''
     (onChange_amount ''150'' \<lparr>f_type = TRADE, f_strategy = SWING, f_amount = [], f_note = ''n''\<rparr>)
     [mk_tx ''id-1'' ''2024-01-02'' DEPOSIT DAY_TRADE (Fin 1000)] =
   ([mk_tx ''id-1'' ''2024-01-02'' DEPOSIT DAY_TRADE (Fin 1000),
     \<lparr>tx_id = ''id-2'', date = ''2024-01-15'', type = TRADE, strategy = SWING,
      amount = Fin 150, tx_note = Some ''n''\<rparr>],
    \<lparr>f_type = TRADE, f_strategy = SWING, f_amount = [], f_note = []\<rparr>)"
proof -
  have v: "number_input_value ''150'' = ''150''"
    by code_simp
  show ?thesis
    by (simp add: submit_def handleSubmit_def onChange_amount_def v parseFloat_150
        handleSaveTransaction_def)
qed

text \<open>
  C7. For every form submission whose amount entry is not numeric, the save is
  rejected: \<open>onSave\<close> is not called, no transaction is created, and the transaction
  list and the form are as they were. The entry reaches the form state through the
  number input, which reports the empty string for it; \<open>handleSubmit\<close> returns at its
  guard.
\<close>

theorem C7_non_numeric_rejected:
  assumes "\<not> valid_floating_point_number text_typed"
  shows "fst (handleSubmit sel (onChange_amount text_typed form)) = None \<and>
         submit newId sel (onChange_amount text_typed form) txs =
           (txs, onChange_amount text_typed form)"
proof -
  have "f_amount (onChange_amount text_typed form) = []"
    using assms by (simp add: onChange_amount_def number_input_value_def)
  then show ?thesis
    by (simp add: submit_def handleSubmit_def)
qed

theorem C7_non_numeric_rejected_witness:
  "\<not> valid_floating_point_number ''abc'' \<and>
   \<not> valid_floating_point_number ''12,50'' \<and>
   fst (handleSubmit ''2024-01-15''
     (onChange_amount ''abc''
        \<lparr>f_type = TRADE, f_strategy = SWING, f_amount = [], f_note = ''n''\<rparr>)) = None \<and>
   submit ''id-2'' ''2024-01-15''
     (onChange_amount ''abc''
        \<lparr>f_type = TRADE, f_strategy = SWING, f_amount = [], f_note = ''n''\<rparr>)
     [mk_tx ''id-1'' ''2024-01-02'' DEPOSIT DAY_TRADE (Fin 1000)] =
   ([mk_tx ''id-1'' ''2024-01-02'' DEPOSIT DAY_TRADE (Fin 1000)],
    \<lparr>f_type = TRADE, f_strategy = SWING, f_amount = [], f_note = ''n''\<rparr>)"
proof -
  have a: "\<not> valid_floating_point_number ''abc''"
    and b: "\<not> valid_floating_point_number ''12,50''"
    by code_simp+
  have f: "onChange_amount ''abc''
        \<lparr>f_type = TRADE, f_strategy = SWING, f_amount = [], f_note = ''n''\<rparr> =
      \<lparr>f_type = TRADE, f_strategy = SWING, f_amount = [], f_note = ''n''\<rparr>"
    using a by (simp add: onChange_amount_def number_input_value_def)
  from C7_non_numeric_rejected[OF a, of "''2024-01-15''"
      "\<lparr>f_type = TRADE, f_strategy = SWING, f_amount = [], f_note = ''n''\<rparr>" "''id-2''"
      "[mk_tx ''id-1'' ''2024-01-02'' DEPOSIT DAY_TRADE (Fin 1000)]"] a b
  show ?thesis
    by (simp only: f) simp
qed

section \<open>Running \<open>formatPercentage\<close>\<close>

text \<open>
  A plain formatter to run the function with: the percent style multiplies by 100; the
  magnitude is rounded half away from zero to the maximum number of fraction digits
  and written without digit grouping. It stands where the platform's formatter stands.
\<close>

function show_digits :: "int \<Rightarrow> string" where
  "show_digits n =
     (if n < 10 then [''0123456789'' ! nat n]
      else show_digits (n div 10) @ [''0123456789'' ! nat (n mod 10)])"
  by pat_completeness auto
termination
  by (relation "measure nat") auto

definition plain_NumberFormat :: "string \<Rightarrow> NumberFormatOptions \<Rightarrow> jsnum \<Rightarrow> string" where
  "plain_NumberFormat locale opts x =
     (case x of
        Fin q \<Rightarrow>
          (let k = maximumFractionDigits opts;
               scaled = (case style opts of Percent \<Rightarrow> q * 100 | Currency c \<Rightarrow> q);
               n = \<lfloor>\<bar>scaled\<bar> * 10 ^ k + 1 / 2\<rfloor>
           in (if scaled < 0 \<and> 0 < n then ''-'' else []) @ show_digits (n div 10 ^ k) @
              (if k = 0 then [] else ''.'' @ pad_digits k (n mod 10 ^ k)) @
              (case style opts of Percent \<Rightarrow> ''%'' | Currency c \<Rightarrow> []))
      | PInf \<Rightarrow> ''Infinity''
      | NInf \<Rightarrow> ''-Infinity''
      | NaN \<Rightarrow> ''NaN'')"

theorem C9_formatPercentage_witness:
  "formatPercentage plain_NumberFormat NaN = ''0.00%'' \<and>
   formatPercentage plain_NumberFormat PInf = ''0.00%'' \<and>
   formatPercentage plain_NumberFormat NInf = ''0.00%'' \<and>
   formatPercentage plain_NumberFormat (Fin 50) = ''50.00%'' \<and>
   formatPercentage plain_NumberFormat (Fin 225) = ''225.00%''"
proof -
  have h: "rnd (1 / 2) = Fin (1 / 2)"
    using rnd_dyadic[of 1 "- 1"] by simp
  have q: "rnd (9 / 4) = Fin (9 / 4)"
    using rnd_dyadic[of 9 "- 2"] by simp
  have d1: "js_div (Fin 50) (Fin 100) = Fin (1 / 2)"
    by (simp add: h)
  have d2: "js_div (Fin 225) (Fin 100) = Fin (9 / 4)"
    by (simp add: q)
  have a: "plain_NumberFormat ''en-US''
      \<lparr>style = Percent, minimumFractionDigits = 2, maximumFractionDigits = 2\<rparr> (Fin (1 / 2)) =
      ''50.00%''"
    by code_simp
  have b: "plain_NumberFormat ''en-US''
      \<lparr>style = Percent, minimumFractionDigits = 2, maximumFractionDigits = 2\<rparr> (Fin (9 / 4)) =
      ''225.00%''"
    by code_simp
  from C9_formatPercentage[of plain_NumberFormat 50]
    C9_formatPercentage[of plain_NumberFormat 225]
  show ?thesis
    by (simp only: d1 d2 a b simp_thms)
qed

section \<open>Order of summation\<close>

text \<open>
  The sums of the loop are floating-point sums taken in list order, so they can depend
  on that order. This section evaluates single roundings, shows the sums exact for
  ledgers of whole-number amounts, and settles how the metrics depend on the order.
\<close>

subsection \<open>Evaluating a rounding\<close>

lemma rne_nearest:
  assumes "of_int n - 1 / 2 < q" "q < of_int n + 1 / 2"
  shows "rne q = n"
proof (cases "of_int n \<le> q")
  case True
  with assms have "\<lfloor>q\<rfloor> = n" by (intro floor_unique) auto
  with assms show ?thesis by (simp add: rne_def Let_def)
next
  case False
  with assms have "\<lfloor>q\<rfloor> = n - 1" by (intro floor_unique) auto
  with assms False show ?thesis by (simp add: rne_def Let_def)
qed

lemma rne_tie:
  assumes "q = of_int n + 1 / 2"
  shows "rne q = (if even n then n else n + 1)"
proof -
  have "\<lfloor>q\<rfloor> = n" unfolding assms by (intro floor_unique) auto
  then show ?thesis by (simp add: rne_def Let_def assms)
qed

lemma rnd_pos_round:
  assumes "2 powi e \<le> x" "x < 2 powi (e + 1)" "- 1022 \<le> e" "e \<le> 1022"
    and "rne (x / 2 powi (e - 52)) = n" "of_int n \<le> (2::rat) ^ 53"
  shows "rnd x = Fin (of_int n * 2 powi (e - 52))"
proof -
  have "(0::rat) < 2 powi e" by simp
  with assms(1) have pos: "0 < x" by linarith
  then have ax: "\<bar>x\<bar> = x" by simp
  have e: "fexp x = e" using assms(1-4) by (intro fexp_eqI) auto
  have "(of_int n :: rat) * 2 powi (e - 52) \<le> 2 ^ 53 * 2 powi (e - 52)"
    using assms(6) by (intro mult_right_mono) auto
  also have "\<dots> = 2 powi (e + 1)" by (simp add: power_int_add power_int_diff)
  also have "\<dots> < 2 powi 1024" using assms(4) by (intro power_int_strict_increasing) auto
  finally have fin: "\<not> (2::rat) powi 1024 \<le> of_int n * 2 powi (e - 52)"
    by (simp only: not_le)
  show ?thesis
    unfolding rnd_def Let_def ax e assms(5) using fin pos by (simp only: if_False) simp
qed

lemma parse_01: "parseFloat ''0.1'' = Fin (3602879701896397 / 36028797018963968)"
proof -
  have p: "decimal_prefix (dropWhile is_space ''0.1'') = Decimal_literal (1 / 10)"
    by code_simp
  have "rnd (1 / 10) = Fin (of_int 7205759403792794 * 2 powi (- 4 - 52))"
    by (rule rnd_pos_round) (simp_all add: rne_nearest)
  then have r: "rnd (1 / 10) = Fin (3602879701896397 / 36028797018963968)" by simp
  show ?thesis by (simp only: parseFloat_def p literal.case r)
qed

lemma parse_02: "parseFloat ''0.2'' = Fin (3602879701896397 / 18014398509481984)"
proof -
  have p: "decimal_prefix (dropWhile is_space ''0.2'') = Decimal_literal (1 / 5)"
    by code_simp
  have "rnd (1 / 5) = Fin (of_int 7205759403792794 * 2 powi (- 3 - 52))"
    by (rule rnd_pos_round) (simp_all add: rne_nearest)
  then have r: "rnd (1 / 5) = Fin (3602879701896397 / 18014398509481984)" by simp
  show ?thesis by (simp only: parseFloat_def p literal.case r)
qed

lemma parse_03: "parseFloat ''0.3'' = Fin (5404319552844595 / 18014398509481984)"
proof -
  have p: "decimal_prefix (dropWhile is_space ''0.3'') = Decimal_literal (3 / 10)"
    by code_simp
  have "rnd (3 / 10) = Fin (of_int 5404319552844595 * 2 powi (- 2 - 52))"
    by (rule rnd_pos_round) (simp_all add: rne_nearest)
  then have r: "rnd (3 / 10) = Fin (5404319552844595 / 18014398509481984)" by simp
  show ?thesis by (simp only: parseFloat_def p literal.case r)
qed

text \<open>The steps of \<open>0 + 0.1 + 0.2 + 0.3\<close>.\<close>

lemma add_0_01: "js_add (Fin 0) (Fin (3602879701896397 / 36028797018963968)) =
    Fin (3602879701896397 / 36028797018963968)"
  using rnd_dyadic[of 3602879701896397 "- 55"] by simp

lemma add_01_02: "js_add (Fin (3602879701896397 / 36028797018963968))
    (Fin (3602879701896397 / 18014398509481984)) = Fin (1351079888211149 / 4503599627370496)"
proof -
  have "rnd (10808639105689191 / 36028797018963968) =
      Fin (of_int 5404319552844596 * 2 powi (- 2 - 52))"
    by (rule rnd_pos_round) (simp_all add: rne_tie[of _ 5404319552844595])
  then show ?thesis by simp
qed

lemma add_03_03: "js_add (Fin (1351079888211149 / 4503599627370496))
    (Fin (5404319552844595 / 18014398509481984)) = Fin (1351079888211149 / 2251799813685248)"
proof -
  have "rnd (10808639105689191 / 18014398509481984) =
      Fin (of_int 5404319552844596 * 2 powi (- 1 - 52))"
    by (rule rnd_pos_round) (simp_all add: rne_tie[of _ 5404319552844595])
  then show ?thesis by simp
qed

text \<open>The steps of \<open>0 + 0.3 + 0.2 + 0.1\<close>.\<close>

lemma add_0_03: "js_add (Fin 0) (Fin (5404319552844595 / 18014398509481984)) =
    Fin (5404319552844595 / 18014398509481984)"
  using rnd_dyadic[of 5404319552844595 "- 54"] by simp

lemma add_03_02: "js_add (Fin (5404319552844595 / 18014398509481984))
    (Fin (3602879701896397 / 18014398509481984)) = Fin (1 / 2)"
  using rnd_dyadic[of 1 "- 1"] by simp

lemma add_05_01: "js_add (Fin (1 / 2)) (Fin (3602879701896397 / 36028797018963968)) =
    Fin (5404319552844595 / 9007199254740992)"
proof -
  have "rnd (21617278211378381 / 36028797018963968) =
      Fin (of_int 5404319552844595 * 2 powi (- 1 - 52))"
    by (rule rnd_pos_round) (simp_all add: rne_nearest)
  then show ?thesis by simp
qed

subsection \<open>Ledgers whose sums are exact\<close>

text \<open>
  \<open>whole_amounts\<close>: every amount is a whole number, the magnitudes add up to at
  most \<open>2^53\<close>, and the list has fewer than \<open>2^32\<close> elements, as every array has.
  Then every partial sum and every counter is an integer of magnitude at most \<open>2^53\<close>,
  which is representable, and the loop computes the exact totals.
\<close>

definition int_amount :: "Transaction \<Rightarrow> int" where
  "int_amount t = (case amount t of Fin q \<Rightarrow> \<lfloor>q\<rfloor> | PInf \<Rightarrow> 0 | NInf \<Rightarrow> 0 | NaN \<Rightarrow> 0)"

definition whole_amounts :: "Transaction list \<Rightarrow> bool" where
  "whole_amounts txs =
     (list_all (\<lambda>t. amount t = Fin (of_int (int_amount t))) txs \<and>
      (\<Sum>t\<leftarrow>txs. \<bar>int_amount t\<bar>) \<le> 2 ^ 53 \<and>
      length txs < 2 ^ 32)"

definition signed_capital :: "Transaction \<Rightarrow> int" where
  "signed_capital t =
     (if type t = DEPOSIT then int_amount t
      else if type t = WITHDRAWAL then - int_amount t else 0)"

definition trade_amount :: "Transaction \<Rightarrow> int" where
  "trade_amount t = (if type t = TRADE then int_amount t else 0)"

definition win_amount :: "Transaction \<Rightarrow> int" where
  "win_amount t = (if type t = TRADE \<and> 0 < int_amount t then int_amount t else 0)"

definition loss_amount :: "Transaction \<Rightarrow> int" where
  "loss_amount t = (if type t = TRADE \<and> int_amount t < 0 then - int_amount t else 0)"

definition trade_unit :: "Transaction \<Rightarrow> int" where
  "trade_unit t = (if type t = TRADE then 1 else 0)"

definition win_unit :: "Transaction \<Rightarrow> int" where
  "win_unit t = (if type t = TRADE \<and> 0 < int_amount t then 1 else 0)"

definition loss_unit :: "Transaction \<Rightarrow> int" where
  "loss_unit t = (if type t = TRADE \<and> int_amount t < 0 then 1 else 0)"

definition exact_totals :: "Transaction list \<Rightarrow> totals" where
  "exact_totals txs =
     \<lparr>acc_investedCapital = Fin (of_int (\<Sum>t\<leftarrow>txs. signed_capital t)),
      acc_netProfit = Fin (of_int (\<Sum>t\<leftarrow>txs. trade_amount t)),
      acc_tradeCount = Fin (of_int (\<Sum>t\<leftarrow>txs. trade_unit t)),
      acc_grossProfit = Fin (of_int (\<Sum>t\<leftarrow>txs. win_amount t)),
      acc_grossLoss = Fin (of_int (\<Sum>t\<leftarrow>txs. loss_amount t)),
      acc_winCount = Fin (of_int (\<Sum>t\<leftarrow>txs. win_unit t)),
      acc_lossCount = Fin (of_int (\<Sum>t\<leftarrow>txs. loss_unit t))\<rparr>"

lemma js_add_int_exact:
  "\<bar>a + b\<bar> \<le> 2 ^ 53 \<Longrightarrow> js_add (Fin (of_int a)) (Fin (of_int b)) = Fin (of_int (a + b))"
proof -
  assume "\<bar>a + b\<bar> \<le> 2 ^ 53"
  then have "(of_int \<bar>a + b\<bar> :: rat) \<le> of_int (2 ^ 53)" by (simp only: of_int_le_iff)
  then have "\<bar>of_int (a + b) :: rat\<bar> \<le> 2 ^ 53" by simp
  then have "rnd (of_int (a + b)) = Fin (of_int (a + b))"
    by (intro rnd_int_exact) auto
  then show ?thesis by simp
qed

lemma js_sub_int_exact:
  "\<bar>a - b\<bar> \<le> 2 ^ 53 \<Longrightarrow> js_sub (Fin (of_int a)) (Fin (of_int b)) = Fin (of_int (a - b))"
  using js_add_int_exact[of a "- b"] by (simp add: js_sub_def)

lemma sum_list_abs_le:
  assumes "\<And>t. \<bar>f t\<bar> \<le> \<bar>int_amount t\<bar>"
  shows "\<bar>\<Sum>t\<leftarrow>xs. f t\<bar> \<le> (\<Sum>t\<leftarrow>xs. \<bar>int_amount t\<bar>)"
proof (induction xs)
  case Nil
  then show ?case by simp
next
  case (Cons x xs)
  from assms[of x] Cons.IH show ?case by simp
qed

lemma sum_list_unit_le:
  assumes "\<And>t. 0 \<le> f t \<and> f t \<le> (1::int)"
  shows "0 \<le> (\<Sum>t\<leftarrow>xs. f t) \<and> (\<Sum>t\<leftarrow>xs. f t) \<le> int (length xs)"
proof (induction xs)
  case Nil
  then show ?case by simp
next
  case (Cons x xs)
  from assms[of x] Cons.IH show ?case by simp
qed

lemma stats_step_exact:
  assumes a: "amount t = Fin (of_int (int_amount t))"
    and b: "(\<Sum>u\<leftarrow>xs. \<bar>int_amount u\<bar>) + \<bar>int_amount t\<bar> \<le> 2 ^ 53"
    and l: "int (length xs) + 1 \<le> 2 ^ 53"
  shows "stats_step (exact_totals xs) t = exact_totals (xs @ [t])"
proof -
  define n where "n = int_amount t"
  define B where "B = (\<Sum>u\<leftarrow>xs. \<bar>int_amount u\<bar>)"
  define ic where "ic = (\<Sum>u\<leftarrow>xs. signed_capital u)"
  define np where "np = (\<Sum>u\<leftarrow>xs. trade_amount u)"
  define gp where "gp = (\<Sum>u\<leftarrow>xs. win_amount u)"
  define gl where "gl = (\<Sum>u\<leftarrow>xs. loss_amount u)"
  define tc where "tc = (\<Sum>u\<leftarrow>xs. trade_unit u)"
  define wc where "wc = (\<Sum>u\<leftarrow>xs. win_unit u)"
  define lc where "lc = (\<Sum>u\<leftarrow>xs. loss_unit u)"
  have bn: "B + \<bar>n\<bar> \<le> 2 ^ 53" using b by (simp add: B_def n_def)
  have bic: "\<bar>ic\<bar> \<le> B" unfolding ic_def B_def
    by (rule sum_list_abs_le) (simp add: signed_capital_def)
  have bnp: "\<bar>np\<bar> \<le> B" unfolding np_def B_def
    by (rule sum_list_abs_le) (simp add: trade_amount_def)
  have bgp: "\<bar>gp\<bar> \<le> B" unfolding gp_def B_def
    by (rule sum_list_abs_le) (simp add: win_amount_def)
  have bgl: "\<bar>gl\<bar> \<le> B" unfolding gl_def B_def
    by (rule sum_list_abs_le) (simp add: loss_amount_def)
  have btc: "0 \<le> tc \<and> tc \<le> int (length xs)" unfolding tc_def
    by (rule sum_list_unit_le) (simp add: trade_unit_def)
  have bwc: "0 \<le> wc \<and> wc \<le> int (length xs)" unfolding wc_def
    by (rule sum_list_unit_le) (simp add: win_unit_def)
  have blc: "0 \<le> lc \<and> lc \<le> int (length xs)" unfolding lc_def
    by (rule sum_list_unit_le) (simp add: loss_unit_def)
  have e_ic_add: "js_add (Fin (of_int ic)) (Fin (of_int n)) = Fin (of_int (ic + n))"
    using bic bn by (intro js_add_int_exact) linarith
  have e_ic_sub: "js_sub (Fin (of_int ic)) (Fin (of_int n)) = Fin (of_int (ic - n))"
    using bic bn by (intro js_sub_int_exact) linarith
  have e_np: "js_add (Fin (of_int np)) (Fin (of_int n)) = Fin (of_int (np + n))"
    using bnp bn by (intro js_add_int_exact) linarith
  have e_gp: "js_add (Fin (of_int gp)) (Fin (of_int n)) = Fin (of_int (gp + n))"
    using bgp bn by (intro js_add_int_exact) linarith
  have "\<bar>gl + - n\<bar> \<le> 2 ^ 53" using bgl bn by linarith
  from js_add_int_exact[OF this]
  have e_gl: "js_add (Fin (of_int gl)) (Fin (- of_int n)) = Fin (of_int gl - of_int n)"
    by simp
  have e_tc: "js_add (Fin (of_int tc)) (Fin 1) = Fin (of_int (tc + 1))"
    using js_add_int_exact[of tc 1] btc l by simp
  have e_wc: "js_add (Fin (of_int wc)) (Fin 1) = Fin (of_int (wc + 1))"
    using js_add_int_exact[of wc 1] bwc l by simp
  have e_lc: "js_add (Fin (of_int lc)) (Fin 1) = Fin (of_int (lc + 1))"
    using js_add_int_exact[of lc 1] blc l by simp
  have gt: "js_gt (Fin (of_int n)) (Fin 0) = (0 < n)"
    and lt: "js_lt (Fin (of_int n)) (Fin 0) = (n < 0)"
    by (simp_all add: js_gt_def)
  have ab: "js_abs (Fin (of_int n)) = Fin (of_int \<bar>n\<bar>)" by simp
  have am: "amount t = Fin (of_int n)" using a by (simp add: n_def)
  have lhs: "exact_totals xs =
      \<lparr>acc_investedCapital = Fin (of_int ic), acc_netProfit = Fin (of_int np),
       acc_tradeCount = Fin (of_int tc), acc_grossProfit = Fin (of_int gp),
       acc_grossLoss = Fin (of_int gl), acc_winCount = Fin (of_int wc),
       acc_lossCount = Fin (of_int lc)\<rparr>"
    by (simp add: exact_totals_def ic_def np_def tc_def gp_def gl_def wc_def lc_def)
  have rhs: "exact_totals (xs @ [t]) =
      \<lparr>acc_investedCapital = Fin (of_int (ic + signed_capital t)),
       acc_netProfit = Fin (of_int (np + trade_amount t)),
       acc_tradeCount = Fin (of_int (tc + trade_unit t)),
       acc_grossProfit = Fin (of_int (gp + win_amount t)),
       acc_grossLoss = Fin (of_int (gl + loss_amount t)),
       acc_winCount = Fin (of_int (wc + win_unit t)),
       acc_lossCount = Fin (of_int (lc + loss_unit t))\<rparr>"
    by (simp add: exact_totals_def ic_def np_def tc_def gp_def gl_def wc_def lc_def)
  show ?thesis
  proof (cases "type t")
    case TRADE
    consider "0 < n" | "n < 0" | "n = 0" by linarith
    then show ?thesis
    proof cases
      case 1
      then show ?thesis
        unfolding lhs rhs
        by (simp add: stats_step_def Let_def TRADE am gt lt e_np e_tc e_gp e_wc
            signed_capital_def trade_amount_def trade_unit_def win_amount_def loss_amount_def
            win_unit_def loss_unit_def n_def[symmetric] del: js_add.simps js_lt.simps)
    next
      case 2
      then have "\<bar>n\<bar> = - n" by simp
      with 2 show ?thesis
        unfolding lhs rhs
        by (simp add: stats_step_def Let_def TRADE am gt lt ab e_np e_tc e_gl e_lc
            signed_capital_def trade_amount_def trade_unit_def win_amount_def loss_amount_def
            win_unit_def loss_unit_def n_def[symmetric] del: js_add.simps js_lt.simps js_abs.simps)
    next
      case 3
      from e_np 3 have e0: "js_add (Fin (of_int np)) (Fin 0) = Fin (of_int np)" by simp
      from 3 show ?thesis
        unfolding lhs rhs
        by (simp add: stats_step_def Let_def TRADE am js_gt_def e0 e_tc
            signed_capital_def trade_amount_def trade_unit_def win_amount_def loss_amount_def
            win_unit_def loss_unit_def n_def[symmetric] del: js_add.simps)
    qed
  next
    case DEPOSIT
    then show ?thesis
      unfolding lhs rhs
      by (simp add: stats_step_def Let_def am e_ic_add
          signed_capital_def trade_amount_def trade_unit_def win_amount_def loss_amount_def
          win_unit_def loss_unit_def n_def[symmetric] del: js_add.simps)
  next
    case WITHDRAWAL
    then show ?thesis
      unfolding lhs rhs
      by (simp add: stats_step_def Let_def am e_ic_sub
          signed_capital_def trade_amount_def trade_unit_def win_amount_def loss_amount_def
          win_unit_def loss_unit_def n_def[symmetric] del: js_add.simps)
  qed
qed

lemma whole_amounts_butlast:
  assumes "whole_amounts (xs @ [t])"
  shows "whole_amounts xs"
    and "amount t = Fin (of_int (int_amount t))"
    and "(\<Sum>u\<leftarrow>xs. \<bar>int_amount u\<bar>) + \<bar>int_amount t\<bar> \<le> 2 ^ 53"
    and "int (length xs) + 1 \<le> 2 ^ 53"
proof -
  from assms have s: "(\<Sum>u\<leftarrow>xs. \<bar>int_amount u\<bar>) + \<bar>int_amount t\<bar> \<le> 2 ^ 53"
    and len: "Suc (length xs) < 2 ^ 32"
    and all: "list_all (\<lambda>t. amount t = Fin (of_int (int_amount t))) xs"
    and t: "amount t = Fin (of_int (int_amount t))"
    by (simp_all add: whole_amounts_def)
  from s have "(\<Sum>u\<leftarrow>xs. \<bar>int_amount u\<bar>) \<le> 2 ^ 53" by linarith
  with all len show "whole_amounts xs" by (simp add: whole_amounts_def)
  show "amount t = Fin (of_int (int_amount t))" by (rule t)
  show "(\<Sum>u\<leftarrow>xs. \<bar>int_amount u\<bar>) + \<bar>int_amount t\<bar> \<le> 2 ^ 53" by (rule s)
  from len have "int (Suc (length xs)) < 2 ^ 32" by (metis of_nat_less_iff of_nat_numeral of_nat_power)
  then show "int (length xs) + 1 \<le> 2 ^ 53" by simp
qed

lemma stats_loop_exact: "whole_amounts txs \<Longrightarrow> stats_loop txs = exact_totals txs"
proof (induction txs rule: rev_induct)
  case Nil
  show ?case by (simp add: stats_loop_def stats_init_def exact_totals_def)
next
  case (snoc t xs)
  from whole_amounts_butlast[OF snoc.prems] snoc.IH
  have "stats_loop xs = exact_totals xs"
    and "stats_step (exact_totals xs) t = exact_totals (xs @ [t])"
    by (simp_all add: stats_step_exact)
  then show ?case by (simp add: stats_loop_snoc)
qed

lemma sum_list_map_perm:
  fixes f :: "'a \<Rightarrow> int"
  assumes "mset xs = mset ys"
  shows "(\<Sum>x\<leftarrow>xs. f x) = (\<Sum>x\<leftarrow>ys. f x)"
proof -
  have "(\<Sum>x\<leftarrow>xs. f x) = sum_mset (image_mset f (mset xs))"
    by (metis mset_map sum_mset_sum_list)
  also have "\<dots> = sum_mset (image_mset f (mset ys))" by (simp only: assms)
  also have "\<dots> = (\<Sum>x\<leftarrow>ys. f x)"
    by (metis mset_map sum_mset_sum_list)
  finally show ?thesis .
qed

lemma exact_totals_perm: "mset xs = mset ys \<Longrightarrow> exact_totals xs = exact_totals ys"
  by (simp add: exact_totals_def sum_list_map_perm[of xs ys])

lemma whole_amounts_perm:
  assumes "mset xs = mset ys" "whole_amounts ys"
  shows "whole_amounts xs"
proof -
  from assms(1) have "set xs = set ys" by (rule mset_eq_setD)
  moreover from assms(1) have "length xs = length ys" by (rule mset_eq_length)
  moreover have "(\<Sum>t\<leftarrow>xs. \<bar>int_amount t\<bar>) = (\<Sum>t\<leftarrow>ys. \<bar>int_amount t\<bar>)"
    using assms(1) by (rule sum_list_map_perm)
  ultimately show ?thesis using assms(2) by (simp add: whole_amounts_def list_all_iff)
qed

lemma sum_list_abs_filter_le:
  "(\<Sum>t\<leftarrow>filter P xs. \<bar>int_amount t\<bar>) \<le> (\<Sum>t\<leftarrow>xs. \<bar>int_amount t\<bar>)"
proof (induction xs)
  case Nil
  show ?case by simp
next
  case (Cons x xs)
  have "0 \<le> \<bar>int_amount x\<bar>" by simp
  with Cons.IH show ?case by (cases "P x") simp_all
qed

lemma whole_amounts_filter: "whole_amounts xs \<Longrightarrow> whole_amounts (filter P xs)"
proof -
  assume w: "whole_amounts xs"
  from w have "length xs < 2 ^ 32" by (simp add: whole_amounts_def)
  then have "length (filter P xs) < 2 ^ 32"
    using length_filter_le[of P xs] by (rule order_le_less_trans[rotated])
  moreover have "(\<Sum>t\<leftarrow>filter P xs. \<bar>int_amount t\<bar>) \<le> (\<Sum>t\<leftarrow>xs. \<bar>int_amount t\<bar>)"
    by (rule sum_list_abs_filter_le)
  ultimately show ?thesis using w
    by (auto simp: whole_amounts_def list_all_iff)
qed

lemma stats_perm_exact:
  assumes "mset xs = mset ys" "whole_amounts ys"
  shows "stats xs = stats ys"
proof -
  have "whole_amounts xs" using assms by (rule whole_amounts_perm)
  then have "stats_loop xs = exact_totals xs" by (rule stats_loop_exact)
  also have "\<dots> = exact_totals ys" using assms(1) by (rule exact_totals_perm)
  also have "\<dots> = stats_loop ys" using assms(2) by (simp add: stats_loop_exact)
  finally show ?thesis by (simp add: stats_def)
qed

subsection \<open>The counters depend on the number of matching transactions only\<close>

lemma stats_step_counts:
  "acc_tradeCount (stats_step s t) =
     (if type t = TRADE then js_add (acc_tradeCount s) (Fin 1) else acc_tradeCount s)"
  "acc_winCount (stats_step s t) =
     (if type t = TRADE \<and> js_gt (amount t) (Fin 0) then js_add (acc_winCount s) (Fin 1)
      else acc_winCount s)"
  by (simp_all add: stats_step_def Let_def)

lemma stats_loop_tradeCount:
  "acc_tradeCount (stats_loop txs) =
     ((\<lambda>c. js_add c (Fin 1)) ^^ length (filter (\<lambda>t. type t = TRADE) txs)) (Fin 0)"
proof (induction txs rule: rev_induct)
  case Nil
  show ?case by (simp add: stats_loop_def stats_init_def)
next
  case (snoc t xs)
  then show ?case by (simp add: stats_loop_snoc stats_step_counts)
qed

lemma stats_loop_winCount:
  "acc_winCount (stats_loop txs) =
     ((\<lambda>c. js_add c (Fin 1)) ^^
        length (filter (\<lambda>t. type t = TRADE \<and> js_gt (amount t) (Fin 0)) txs)) (Fin 0)"
proof (induction txs rule: rev_induct)
  case Nil
  show ?case by (simp add: stats_loop_def stats_init_def)
next
  case (snoc t xs)
  then show ?case by (simp add: stats_loop_snoc stats_step_counts)
qed

lemma length_filter_perm: "mset xs = mset ys \<Longrightarrow> length (filter P xs) = length (filter P ys)"
  by (metis mset_filter size_mset)

lemma counts_perm:
  assumes "mset xs = mset ys"
  shows "tradeCount (stats xs) = tradeCount (stats ys) \<and> winRate (stats xs) = winRate (stats ys)"
proof -
  have "acc_tradeCount (stats_loop xs) = acc_tradeCount (stats_loop ys)"
    by (simp only: stats_loop_tradeCount length_filter_perm[OF assms])
  moreover have "acc_winCount (stats_loop xs) = acc_winCount (stats_loop ys)"
    by (simp only: stats_loop_winCount length_filter_perm[OF assms])
  ultimately show ?thesis by (simp add: stats_def stats_of_def)
qed

subsection \<open>The view and the order of the list\<close>

lemma stats_netProfit:
  "netProfit (stats txs) = js_sum (map amount (filter (\<lambda>t. type t = TRADE) txs))"
proof -
  have step: "acc_netProfit (stats_step s t) =
      (if type t = TRADE then js_add (acc_netProfit s) (amount t) else acc_netProfit s)" for s t
    by (simp add: stats_step_def Let_def)
  have "acc_netProfit (stats_loop txs) =
      foldl js_add (Fin 0) (map amount (filter (\<lambda>t. type t = TRADE) txs))"
  proof (induction txs rule: rev_induct)
    case Nil
    show ?case by (simp add: stats_loop_def stats_init_def)
  next
    case (snoc t xs)
    then show ?case by (simp add: stats_loop_snoc step)
  qed
  then show ?thesis by (simp add: stats_def stats_of_def js_sum_def)
qed

text \<open>A trade whose amount is what the form parses from the entry.\<close>

definition trade_on :: "string \<Rightarrow> string \<Rightarrow> string \<Rightarrow> Transaction" where
  "trade_on i d entry = mk_tx i d TRADE SWING (parseFloat entry)"




text \<open>
  C10, as far as it holds. For every transaction list and every permutation of it,
  \<open>tradeCount\<close> and \<open>winRate\<close> are identical. When the amounts are whole numbers
  whose magnitudes add up to at most \<open>2^53\<close> (\<open>whole_amounts\<close>), all nine metrics
  are identical, also through the filtered view, and the date sort of the view changes
  no metric.
\<close>

theorem C10_permutation:
  assumes "mset txs' = mset txs"
  shows "tradeCount (stats txs') = tradeCount (stats txs) \<and>
         winRate (stats txs') = winRate (stats txs) \<and>
         (whole_amounts txs \<longrightarrow>
            stats txs' = stats txs \<and>
            stats (filteredTransactions getTime v txs') =
              stats (filteredTransactions getTime v txs) \<and>
            stats (filteredTransactions getTime v txs) =
              stats (case v of OVERVIEW \<Rightarrow> txs | View s \<Rightarrow> filter (\<lambda>t. strategy t = s) txs))"
proof -
  have filt: "mset (case v of OVERVIEW \<Rightarrow> txs' | View s \<Rightarrow> filter (\<lambda>t. strategy t = s) txs') =
      mset (case v of OVERVIEW \<Rightarrow> txs | View s \<Rightarrow> filter (\<lambda>t. strategy t = s) txs)"
  proof (cases v)
    case OVERVIEW
    with assms show ?thesis by simp
  next
    case (View s)
    have "mset (filter (\<lambda>t. strategy t = s) txs') = mset (filter (\<lambda>t. strategy t = s) txs)"
      by (simp only: mset_filter assms)
    with View show ?thesis by simp
  qed
  have view: "mset (filteredTransactions getTime v l) =
      mset (case v of OVERVIEW \<Rightarrow> l | View s \<Rightarrow> filter (\<lambda>t. strategy t = s) l)" for l
    by (simp add: filteredTransactions_def mset_js_sort)
  {
    assume w: "whole_amounts txs"
    have wv: "whole_amounts (case v of OVERVIEW \<Rightarrow> txs | View s \<Rightarrow> filter (\<lambda>t. strategy t = s) txs)"
      using w by (cases v) (simp_all add: whole_amounts_filter)
    have a: "stats txs' = stats txs" using assms w by (rule stats_perm_exact)
    have c: "stats (filteredTransactions getTime v txs) =
        stats (case v of OVERVIEW \<Rightarrow> txs | View s \<Rightarrow> filter (\<lambda>t. strategy t = s) txs)"
      using view[of txs] wv by (rule stats_perm_exact)
    have "mset (filteredTransactions getTime v txs') =
        mset (case v of OVERVIEW \<Rightarrow> txs | View s \<Rightarrow> filter (\<lambda>t. strategy t = s) txs)"
      by (simp only: view filt)
    then have "stats (filteredTransactions getTime v txs') =
        stats (case v of OVERVIEW \<Rightarrow> txs | View s \<Rightarrow> filter (\<lambda>t. strategy t = s) txs)"
      using wv by (rule stats_perm_exact)
    with a c have "stats txs' = stats txs \<and>
            stats (filteredTransactions getTime v txs') =
              stats (filteredTransactions getTime v txs) \<and>
            stats (filteredTransactions getTime v txs) =
              stats (case v of OVERVIEW \<Rightarrow> txs | View s \<Rightarrow> filter (\<lambda>t. strategy t = s) txs)"
      by simp
  }
  with counts_perm[OF assms] show ?thesis by blast
qed

theorem C10_permutation_witness:
  "mset [mk_tx ''t'' ''2024-01-04'' TRADE DAY_TRADE (Fin (- 50)),
         mk_tx ''w'' ''2024-01-03'' TRADE SWING (Fin 100),
         mk_tx ''d'' ''2024-01-02'' DEPOSIT DAY_TRADE (Fin 1000)] =
   mset [mk_tx ''d'' ''2024-01-02'' DEPOSIT DAY_TRADE (Fin 1000),
         mk_tx ''w'' ''2024-01-03'' TRADE SWING (Fin 100),
         mk_tx ''t'' ''2024-01-04'' TRADE DAY_TRADE (Fin (- 50))] \<and>
   whole_amounts [mk_tx ''d'' ''2024-01-02'' DEPOSIT DAY_TRADE (Fin 1000),
         mk_tx ''w'' ''2024-01-03'' TRADE SWING (Fin 100),
         mk_tx ''t'' ''2024-01-04'' TRADE DAY_TRADE (Fin (- 50))] \<and>
   stats [mk_tx ''t'' ''2024-01-04'' TRADE DAY_TRADE (Fin (- 50)),
         mk_tx ''w'' ''2024-01-03'' TRADE SWING (Fin 100),
         mk_tx ''d'' ''2024-01-02'' DEPOSIT DAY_TRADE (Fin 1000)] =
   stats [mk_tx ''d'' ''2024-01-02'' DEPOSIT DAY_TRADE (Fin 1000),
         mk_tx ''w'' ''2024-01-03'' TRADE SWING (Fin 100),
         mk_tx ''t'' ''2024-01-04'' TRADE DAY_TRADE (Fin (- 50))] \<and>
   stats (filteredTransactions Date_getTime OVERVIEW
        [mk_tx ''d'' ''2024-01-02'' DEPOSIT DAY_TRADE (Fin 1000),
         mk_tx ''w'' ''2024-01-03'' TRADE SWING (Fin 100),
         mk_tx ''t'' ''2024-01-04'' TRADE DAY_TRADE (Fin (- 50))]) =
   stats [mk_tx ''d'' ''2024-01-02'' DEPOSIT DAY_TRADE (Fin 1000),
         mk_tx ''w'' ''2024-01-03'' TRADE SWING (Fin 100),
         mk_tx ''t'' ''2024-01-04'' TRADE DAY_TRADE (Fin (- 50))] \<and>
   netProfit (stats [mk_tx ''t'' ''2024-01-04'' TRADE DAY_TRADE (Fin (- 50)),
         mk_tx ''w'' ''2024-01-03'' TRADE SWING (Fin 100),
         mk_tx ''d'' ''2024-01-02'' DEPOSIT DAY_TRADE (Fin 1000)]) = Fin 50"
proof -
  have m: "mset [mk_tx ''t'' ''2024-01-04'' TRADE DAY_TRADE (Fin (- 50)),
         mk_tx ''w'' ''2024-01-03'' TRADE SWING (Fin 100),
         mk_tx ''d'' ''2024-01-02'' DEPOSIT DAY_TRADE (Fin 1000)] =
   mset [mk_tx ''d'' ''2024-01-02'' DEPOSIT DAY_TRADE (Fin 1000),
         mk_tx ''w'' ''2024-01-03'' TRADE SWING (Fin 100),
         mk_tx ''t'' ''2024-01-04'' TRADE DAY_TRADE (Fin (- 50))]"
    by (simp add: add_mset_commute)
  have w: "whole_amounts [mk_tx ''d'' ''2024-01-02'' DEPOSIT DAY_TRADE (Fin 1000),
         mk_tx ''w'' ''2024-01-03'' TRADE SWING (Fin 100),
         mk_tx ''t'' ''2024-01-04'' TRADE DAY_TRADE (Fin (- 50))]"
    by (simp add: whole_amounts_def int_amount_def mk_tx_def)
  have n: "netProfit (stats [mk_tx ''t'' ''2024-01-04'' TRADE DAY_TRADE (Fin (- 50)),
         mk_tx ''w'' ''2024-01-03'' TRADE SWING (Fin 100),
         mk_tx ''d'' ''2024-01-02'' DEPOSIT DAY_TRADE (Fin 1000)]) = Fin 50"
    by (simp add: stats_netProfit js_sum_def mk_tx_def rnd_int_exact)
  from C10_permutation[OF m, of Date_getTime OVERVIEW] w m n
  show ?thesis by simp
qed

text \<open>
  Three trades of 0.1, 0.2 and 0.3 on one day: in this order the net profit is
  0.6000000000000001, in the reverse order 0.6, and the stable sort keeps either order.
  Dated on three consecutive days, the view sorts them into the reverse order and its
  net profit differs from that of the list as stored.
\<close>

theorem C10_permutation_counterexample:
  "mset [trade_on ''c'' ''2024-01-15'' ''0.3'', trade_on ''b'' ''2024-01-15'' ''0.2'',
         trade_on ''a'' ''2024-01-15'' ''0.1''] =
   mset [trade_on ''a'' ''2024-01-15'' ''0.1'', trade_on ''b'' ''2024-01-15'' ''0.2'',
         trade_on ''c'' ''2024-01-15'' ''0.3''] \<and>
   netProfit (stats [trade_on ''a'' ''2024-01-15'' ''0.1'', trade_on ''b'' ''2024-01-15'' ''0.2'',
         trade_on ''c'' ''2024-01-15'' ''0.3'']) =
     Fin (1351079888211149 / 2251799813685248) \<and>
   netProfit (stats [trade_on ''c'' ''2024-01-15'' ''0.3'', trade_on ''b'' ''2024-01-15'' ''0.2'',
         trade_on ''a'' ''2024-01-15'' ''0.1'']) =
     Fin (5404319552844595 / 9007199254740992) \<and>
   netProfit (stats (filteredTransactions Date_getTime OVERVIEW
        [trade_on ''a'' ''2024-01-15'' ''0.1'', trade_on ''b'' ''2024-01-15'' ''0.2'',
         trade_on ''c'' ''2024-01-15'' ''0.3''])) \<noteq>
   netProfit (stats (filteredTransactions Date_getTime OVERVIEW
        [trade_on ''c'' ''2024-01-15'' ''0.3'', trade_on ''b'' ''2024-01-15'' ''0.2'',
         trade_on ''a'' ''2024-01-15'' ''0.1''])) \<and>
   netProfit (stats (filteredTransactions Date_getTime OVERVIEW
        [trade_on ''a'' ''2024-01-15'' ''0.1'', trade_on ''b'' ''2024-01-16'' ''0.2'',
         trade_on ''c'' ''2024-01-17'' ''0.3''])) \<noteq>
   netProfit (stats
        [trade_on ''a'' ''2024-01-15'' ''0.1'', trade_on ''b'' ''2024-01-16'' ''0.2'',
         trade_on ''c'' ''2024-01-17'' ''0.3''])"
proof -
  have d: "Date_getTime ''2024-01-15'' = Fin 1705276800000"
    "Date_getTime ''2024-01-16'' = Fin 1705363200000"
    "Date_getTime ''2024-01-17'' = Fin 1705449600000"
    by code_simp+
  have am: "amount (trade_on i dd ''0.1'') = Fin (3602879701896397 / 36028797018963968)"
    "amount (trade_on i dd ''0.2'') = Fin (3602879701896397 / 18014398509481984)"
    "amount (trade_on i dd ''0.3'') = Fin (5404319552844595 / 18014398509481984)"
    "type (trade_on i dd e) = TRADE" "date (trade_on i dd e) = dd" for i dd e
    by (simp_all add: trade_on_def mk_tx_def parse_01 parse_02 parse_03)
  have up: "netProfit (stats [trade_on i1 d1 ''0.1'', trade_on i2 d2 ''0.2'', trade_on i3 d3 ''0.3'']) =
      Fin (1351079888211149 / 2251799813685248)" for i1 i2 i3 d1 d2 d3
  proof -
    have "map amount (filter (\<lambda>t. type t = TRADE)
        [trade_on i1 d1 ''0.1'', trade_on i2 d2 ''0.2'', trade_on i3 d3 ''0.3'']) =
        [Fin (3602879701896397 / 36028797018963968), Fin (3602879701896397 / 18014398509481984),
         Fin (5404319552844595 / 18014398509481984)]"
      by (simp add: am)
    then show ?thesis
      by (simp only: stats_netProfit js_sum_def foldl.simps add_0_01 add_01_02 add_03_03)
  qed
  have down: "netProfit (stats [trade_on i3 d3 ''0.3'', trade_on i2 d2 ''0.2'', trade_on i1 d1 ''0.1'']) =
      Fin (5404319552844595 / 9007199254740992)" for i1 i2 i3 d1 d2 d3
  proof -
    have "map amount (filter (\<lambda>t. type t = TRADE)
        [trade_on i3 d3 ''0.3'', trade_on i2 d2 ''0.2'', trade_on i1 d1 ''0.1'']) =
        [Fin (5404319552844595 / 18014398509481984), Fin (3602879701896397 / 18014398509481984),
         Fin (3602879701896397 / 36028797018963968)]"
      by (simp add: am)
    then show ?thesis
      by (simp only: stats_netProfit js_sum_def foldl.simps add_0_03 add_03_02 add_05_01)
  qed
  have ne: "Fin (1351079888211149 / 2251799813685248) \<noteq> Fin (5404319552844595 / 9007199254740992)"
    by simp
  have same1: "filteredTransactions Date_getTime OVERVIEW
        [trade_on ''a'' ''2024-01-15'' ''0.1'', trade_on ''b'' ''2024-01-15'' ''0.2'',
         trade_on ''c'' ''2024-01-15'' ''0.3''] =
        [trade_on ''a'' ''2024-01-15'' ''0.1'', trade_on ''b'' ''2024-01-15'' ''0.2'',
         trade_on ''c'' ''2024-01-15'' ''0.3'']"
    by (simp add: filteredTransactions_def js_sort_def by_date_desc_def am d js_sub_def js_gt_def
        rnd_int_exact)
  have same2: "filteredTransactions Date_getTime OVERVIEW
        [trade_on ''c'' ''2024-01-15'' ''0.3'', trade_on ''b'' ''2024-01-15'' ''0.2'',
         trade_on ''a'' ''2024-01-15'' ''0.1''] =
        [trade_on ''c'' ''2024-01-15'' ''0.3'', trade_on ''b'' ''2024-01-15'' ''0.2'',
         trade_on ''a'' ''2024-01-15'' ''0.1'']"
    by (simp add: filteredTransactions_def js_sort_def by_date_desc_def am d js_sub_def js_gt_def
        rnd_int_exact)
  have rev3: "filteredTransactions Date_getTime OVERVIEW
        [trade_on ''a'' ''2024-01-15'' ''0.1'', trade_on ''b'' ''2024-01-16'' ''0.2'',
         trade_on ''c'' ''2024-01-17'' ''0.3''] =
        [trade_on ''c'' ''2024-01-17'' ''0.3'', trade_on ''b'' ''2024-01-16'' ''0.2'',
         trade_on ''a'' ''2024-01-15'' ''0.1'']"
    by (simp add: filteredTransactions_def js_sort_def by_date_desc_def am d js_sub_def js_gt_def
        rnd_int_exact)
  have m: "mset [trade_on ''c'' ''2024-01-15'' ''0.3'', trade_on ''b'' ''2024-01-15'' ''0.2'',
         trade_on ''a'' ''2024-01-15'' ''0.1''] =
   mset [trade_on ''a'' ''2024-01-15'' ''0.1'', trade_on ''b'' ''2024-01-15'' ''0.2'',
         trade_on ''c'' ''2024-01-15'' ''0.3'']"
    by (simp add: add_mset_commute)
  show ?thesis
    unfolding same1 same2 rev3 up down using m ne by simp
qed

end
